theory Spec2Isabelle
  imports Complex_Main
begin

section \<open>DeepFool-Linf attack (src/img\_attacks/deepfool.py)\<close>

text \<open>
  Tensors are nested lists: a batch of \<open>N\<close> samples is a list of \<open>N\<close> rows, each
  row the flattened features of one sample; logits are \<open>N\<close> rows of \<open>C\<close> scores; the
  stacked gradients are \<open>N\<close> rows of \<open>C - 1\<close> feature rows. Floating-point scalars are
  modelled as real numbers (no rounding, no NaN, no infinities). Exceptions are values of
  type \<open>error\<close>, carried in the left summand.
\<close>

type_synonym vec = "real list"
type_synonym batch = "real list list"

datatype error = AssertionError | IndexError | RuntimeError | TypeError

definition bindE :: "error + 'a \<Rightarrow> ('a \<Rightarrow> error + 'b) \<Rightarrow> error + 'b" where
  "bindE m f = (case m of Inl e \<Rightarrow> Inl e | Inr v \<Rightarrow> f v)"

subsection \<open>Tensor primitives\<close>

text \<open>\<open>t[:, k]\<close>: every row must have a column \<open>k\<close>.\<close>

definition column :: "'a list list \<Rightarrow> nat \<Rightarrow> error + 'a list" where
  "column t k =
     (if list_all (\<lambda>r. k < length r) t then Inr (map (\<lambda>r. r ! k) t) else Inl IndexError)"

text \<open>\<open>t[range(N), idx]\<close> with \<open>N = len(idx)\<close>: entry \<open>n\<close> is \<open>t[n][idx[n]]\<close>.\<close>

fun index_rows :: "'a list list \<Rightarrow> nat list \<Rightarrow> error + 'a list" where
  "index_rows t [] = Inr []"
| "index_rows [] (i # idx) = Inl IndexError"
| "index_rows (r # t) (i # idx) =
     (if i < length r then bindE (index_rows t idx) (\<lambda>vs. Inr (r ! i # vs))
      else Inl IndexError)"

text \<open>\<open>torch.gather(t, dim=1, index=idx.view(-1, 1))\<close>, flattened to one entry per row.\<close>

definition gather1 :: "'a list list \<Rightarrow> nat list \<Rightarrow> error + 'a list" where
  "gather1 t idx = (case index_rows t idx of Inl e \<Rightarrow> Inl RuntimeError | Inr vs \<Rightarrow> Inr vs)"

text \<open>
  \<open>torch.stack(ts, dim=1)\<close> of tensors whose first dimension is the batch (for the
  one-dimensional \<open>deltas\<close> this is \<open>dim=-1\<close>): entry \<open>[n][j]\<close> is \<open>ts[j][n]\<close>.
\<close>

definition stack1 :: "'a list list \<Rightarrow> error + 'a list list" where
  "stack1 ts =
     (case ts of
        [] \<Rightarrow> Inl RuntimeError
      | t # us \<Rightarrow>
          if list_all (\<lambda>u. length u = length t) us
          then Inr (map (\<lambda>n. map (\<lambda>u. u ! n) ts) [0..<length t])
          else Inl RuntimeError)"

definition tadd :: "batch \<Rightarrow> batch \<Rightarrow> batch" where
  "tadd a b = map2 (map2 (+)) a b"

definition tscale :: "real \<Rightarrow> batch \<Rightarrow> batch" where
  "tscale c a = map (map ((*) c)) a"

definition zeros_like :: "batch \<Rightarrow> batch" where
  "zeros_like a = map (map (\<lambda>_. 0)) a"

text \<open>\<open>clamp(lo, hi)\<close>; as in torch, every element becomes \<open>hi\<close> when \<open>lo > hi\<close>.\<close>

definition clamp :: "real \<Rightarrow> real \<Rightarrow> real \<Rightarrow> real" where
  "clamp lo hi v = min (max v lo) hi"

definition clampT :: "real \<Rightarrow> real \<Rightarrow> batch \<Rightarrow> batch" where
  "clampT lo hi a = map (map (clamp lo hi)) a"

text \<open>\<open>torch.where(mask, a, b)\<close> with the mask broadcast over the features of a sample.\<close>

fun where_rows :: "bool list \<Rightarrow> 'a list \<Rightarrow> 'a list \<Rightarrow> 'a list" where
  "where_rows (m # ms) (a # as) (b # bs) = (if m then a else b) # where_rows ms as bs"
| "where_rows _ _ _ = []"

text \<open>
  \<open>argmin\<close> / \<open>argmax\<close> along a row: a left-to-right scan that keeps the first best
  element. (On an empty row torch raises; the scan is started at index 0 there.)
\<close>

fun arg_scan :: "(real \<Rightarrow> real \<Rightarrow> bool) \<Rightarrow> nat \<Rightarrow> real \<Rightarrow> nat \<Rightarrow> real list \<Rightarrow> nat" where
  "arg_scan better b bv i [] = b"
| "arg_scan better b bv i (v # vs) =
     (if better v bv then arg_scan better i v (Suc i) vs
      else arg_scan better b bv (Suc i) vs)"

definition argmin :: "real list \<Rightarrow> nat" where
  "argmin xs = (case xs of [] \<Rightarrow> 0 | v # vs \<Rightarrow> arg_scan (<) 0 v 1 vs)"

definition argmax :: "real list \<Rightarrow> nat" where
  "argmax xs = (case xs of [] \<Rightarrow> 0 | v # vs \<Rightarrow> arg_scan (>) 0 v 1 vs)"

text \<open>
  \<open>logits.argsort(axis=-1).flip(-1)\<close>: indices by descending score. torch leaves the
  order of equal scores open; here the ascending sort is stable.
\<close>

definition argsort_desc :: "real list \<Rightarrow> nat list" where
  "argsort_desc row = rev (sort_key (\<lambda>i. row ! i) [0..<length row])"

text \<open>\<open>t.shape[-1]\<close> of a two-dimensional tensor (0 for an empty batch).\<close>

definition ncols :: "'a list list \<Rightarrow> nat" where
  "ncols t = (case t of [] \<Rightarrow> 0 | r # _ \<Rightarrow> length r)"

subsection \<open>The attack object\<close>

text \<open>
  The classifier is opaque: \<open>forward\<close> is the call \<open>predict(x)\<close>, and \<open>backward x c\<close> is
  what reverse-mode differentiation returns for it, the gradient with respect to the input
  \<open>x\<close> of \<open>\<Sum> c[n][j] * predict(x)[n][j]\<close>.
\<close>

record classifier =
  forward :: "batch \<Rightarrow> batch"
  backward :: "batch \<Rightarrow> batch \<Rightarrow> batch"

record attack =
  predict :: classifier
  num_classes :: "int option"
  nb_iter :: int
  eps :: real
  random_class :: bool
  overshoot :: real
  clip_min :: real
  clip_max :: real

text \<open>A tensor that requires grad: its values and its gradient buffer \<open>.grad\<close>.\<close>

record gtensor =
  data :: batch
  grad :: "batch option"

record deltas_logits =
  d_sum_deltas :: real
  d_deltas :: vec
  d_logits :: batch

record diff =
  g_sum_deltas :: real
  g_deltas :: vec
  g_logits :: batch
  g_grads :: batch

definition is_adv :: "batch \<Rightarrow> int list \<Rightarrow> bool list" where
  "is_adv logits y = map2 (\<lambda>row l. int (argmax row) \<noteq> l) logits y"

definition get_deltas_logits ::
    "classifier \<Rightarrow> batch \<Rightarrow> nat \<Rightarrow> nat list list \<Rightarrow> error + deltas_logits" where
  "get_deltas_logits p x k classes =
     bindE (column classes 0) (\<lambda>i0.
       let logits = forward p x in
       bindE (column classes k) (\<lambda>ik.
       bindE (index_rows logits i0) (\<lambda>l0.
       bindE (index_rows logits ik) (\<lambda>lk.
         let delta_logits = map2 (-) lk l0 in
         Inr \<lparr>d_sum_deltas = sum_list delta_logits,
              d_deltas = delta_logits,
              d_logits = logits\<rparr>))))"

text \<open>
  The derivative of \<open>sum_deltas = \<Sum>n. logits[n][classes[n][k]] - logits[n][classes[n][0]]\<close>
  with respect to the logits: the seed that \<open>backward()\<close> propagates through the classifier.
\<close>

definition seed :: "batch \<Rightarrow> nat list list \<Rightarrow> nat \<Rightarrow> batch" where
  "seed logits classes k =
     map (\<lambda>(n, row).
            map (\<lambda>c. (if n < length classes \<and> c = classes ! n ! k then 1 else 0)
                   - (if n < length classes \<and> c = classes ! n ! 0 then 1 else 0))
                [0..<length row])
         (enumerate 0 logits)"

definition sum_deltas_gradient :: "classifier \<Rightarrow> batch \<Rightarrow> nat \<Rightarrow> nat list list \<Rightarrow> batch" where
  "sum_deltas_gradient p x k classes = backward p x (seed (forward p x) classes k)"

text \<open>\<open>backward()\<close> adds the gradient to the buffer of \<open>x\<close> (or creates the buffer).\<close>

definition accumulate :: "batch option \<Rightarrow> batch \<Rightarrow> batch" where
  "accumulate buf g = (case buf of None \<Rightarrow> g | Some b \<Rightarrow> tadd b g)"

definition get_grads ::
    "classifier \<Rightarrow> gtensor \<Rightarrow> nat \<Rightarrow> nat list list \<Rightarrow> error + diff \<times> gtensor" where
  "get_grads p x k classes =
     bindE (get_deltas_logits p (data x) k classes) (\<lambda>dl.
       let x1 = x\<lparr>grad := Some (accumulate (grad x) (sum_deltas_gradient p (data x) k classes))\<rparr>;
           grads = (case grad x1 of None \<Rightarrow> [] | Some b \<Rightarrow> b);
           x2 = x1\<lparr>grad := Some (zeros_like grads)\<rparr>
       in Inr (\<lparr>g_sum_deltas = d_sum_deltas dl,
                g_deltas = d_deltas dl,
                g_logits = d_logits dl,
                g_grads = grads\<rparr>, x2))"

definition get_distances :: "real list list \<Rightarrow> real list list list \<Rightarrow> real list list" where
  "get_distances deltas grads =
     map2 (\<lambda>drow grow. map2 (\<lambda>d g. \<bar>d\<bar> / (sum_list (map abs g) + 1 / 10 ^ 8)) drow grow)
          deltas grads"

definition get_perturbations :: "real list \<Rightarrow> batch \<Rightarrow> batch" where
  "get_perturbations distances grads = map2 (\<lambda>d g. map (\<lambda>v. d * sgn v) g) distances grads"

subsection \<open>perturb\<close>

text \<open>
  Lines 111-121: the candidate classes and the effective \<open>num_classes\<close>, which is
  stored back into the attack object. \<open>rnd n\<close> is the draw of \<open>random_(1, num_classes)\<close> for
  sample \<open>n\<close>. The result of \<open>torch.cat\<close> is computed and not bound to any name.
\<close>

definition class_setup ::
    "attack \<Rightarrow> (nat \<Rightarrow> nat) \<Rightarrow> batch \<Rightarrow> batch \<Rightarrow> nat list list \<Rightarrow> error + attack" where
  "class_setup self rnd x logits classes =
     (if random_class self then
        (if (case num_classes self of None \<Rightarrow> False | Some m \<Rightarrow> m \<le> 1) then Inl RuntimeError
         else
           let rand_classes = map rnd [0..<length x] in
           bindE (column classes 0) (\<lambda>top1.
           bindE (gather1 classes rand_classes) (\<lambda>other.
             if length top1 \<noteq> length other then Inl RuntimeError
             else
               let cat = map2 (\<lambda>a b. [a, b]) top1 other in
               Inr (self\<lparr>num_classes := Some 2\<rparr>))))
      else
        (case num_classes self of
           None \<Rightarrow> Inr (self\<lparr>num_classes := Some (int (ncols logits))\<rparr>)
         | Some m \<Rightarrow> Inr (self\<lparr>num_classes := Some (min m (int (ncols logits)))\<rparr>)))"

text \<open>
  The state of the loop: the working point \<open>x\<close>, the cumulative perturbation, and a log
  (not in the source) of the challenger index \<open>k\<close> of every \<open>get_grads\<close> call made so far.
\<close>

record loop_state =
  cur_x :: gtensor
  cur_p_total :: batch
  evals :: "nat list"

datatype 'a ctl = Continue 'a | Break 'a

fun ctl_state :: "'a ctl \<Rightarrow> 'a" where
  "ctl_state (Continue s) = s"
| "ctl_state (Break s) = s"

text \<open>A call of \<open>get_grads\<close> that also appends its \<open>k\<close> to the log.\<close>

definition get_grads_logged ::
    "classifier \<Rightarrow> gtensor \<times> nat list \<Rightarrow> nat \<Rightarrow> nat list list
       \<Rightarrow> error + diff \<times> gtensor \<times> nat list" where
  "get_grads_logged p xl k classes =
     bindE (get_grads p (fst xl) k classes) (\<lambda>(d, x1). Inr (d, x1, snd xl @ [k]))"

text \<open>\<open>[self.get_grads(x, k, classes) for k in ks]\<close>, threading the buffer of \<open>x\<close>.\<close>

fun get_grads_list ::
    "classifier \<Rightarrow> gtensor \<times> nat list \<Rightarrow> nat list \<Rightarrow> nat list list
       \<Rightarrow> error + diff list \<times> gtensor \<times> nat list" where
  "get_grads_list p xl [] classes = Inr ([], xl)"
| "get_grads_list p xl (k # ks) classes =
     bindE (get_grads_logged p xl k classes) (\<lambda>(d, xl1).
     bindE (get_grads_list p xl1 ks classes) (\<lambda>(ds, xl2). Inr (d # ds, xl2)))"

definition has_shape2 :: "'a list list \<Rightarrow> nat \<Rightarrow> int \<Rightarrow> bool" where
  "has_shape2 t N M = (length t = N \<and> list_all (\<lambda>r. int (length r) = M) t)"

text \<open>Lines 144-154: distances, the best direction per sample, and the gathers.\<close>

definition best_directions ::
    "nat \<Rightarrow> int \<Rightarrow> batch \<Rightarrow> real list list \<Rightarrow> real list list list
       \<Rightarrow> error + real list \<times> real list \<times> batch" where
  "best_directions N nc x0 deltas grads =
     (let distances = get_distances deltas grads in
      if \<not> has_shape2 distances N (nc - 1) then Inl AssertionError
      else
        let best = map argmin distances in
        bindE (index_rows distances best) (\<lambda>distances'.
        bindE (index_rows deltas best) (\<lambda>deltas'.
        bindE (index_rows grads best) (\<lambda>grads'.
          if length distances' \<noteq> N then Inl AssertionError
          else if length deltas' \<noteq> N then Inl AssertionError
          else if map length grads' \<noteq> map length x0 then Inl AssertionError
          else Inr (distances', deltas', grads')))))"

text \<open>One iteration of the loop (lines 129-167).\<close>

definition body ::
    "attack \<Rightarrow> nat list list \<Rightarrow> batch \<Rightarrow> int list \<Rightarrow> loop_state \<Rightarrow> error + loop_state ctl" where
  "body self classes x0 y s =
     bindE (get_grads_logged (predict self) (cur_x s, evals s) 1 classes) (\<lambda>(d1, x1, log1).
       let adv = is_adv (g_logits d1) y in
       if list_all (\<lambda>b. b) adv then Inr (Break (s\<lparr>cur_x := x1, evals := log1\<rparr>))
       else
         (case num_classes self of
            None \<Rightarrow> Inl TypeError
          | Some nc \<Rightarrow>
              bindE (get_grads_list (predict self) (x1, log1) [2..<nat nc] classes)
                (\<lambda>(ds, x2, log2).
                let diffs = d1 # ds; N = length x0 in
                bindE (stack1 (map g_deltas diffs)) (\<lambda>deltas.
                bindE (stack1 (map g_grads diffs)) (\<lambda>grads.
                  if \<not> has_shape2 deltas N (nc - 1) then Inl AssertionError
                  else if \<not> (has_shape2 grads N (nc - 1)
                            \<and> list_all2 (\<lambda>r x0n. list_all (\<lambda>g. length g = length x0n) r) grads x0)
                  then Inl AssertionError
                  else
                    bindE (best_directions N nc x0 deltas grads) (\<lambda>(distances, deltas', grads').
                      let distances = map (\<lambda>d. d + 1 / 10 ^ 4) distances;
                          p_step = get_perturbations distances grads'
                      in
                      if map length p_step \<noteq> map length x0 then Inl AssertionError
                      else
                        let p_total = tadd (cur_p_total s) p_step;
                            p_total = clampT (- eps self) (eps self) p_total;
                            x = where_rows adv (data x2)
                                  (tadd x0 (tscale (1 + overshoot self) p_total));
                            x = \<lparr>data = clampT (clip_min self) (clip_max self) x, grad = None\<rparr>
                        in Inr (Continue \<lparr>cur_x = x, cur_p_total = p_total,
                                          evals = log2\<rparr>)))))))"

text \<open>\<open>for _ in range(n)\<close> with \<open>break\<close>.\<close>

fun for_range ::
    "nat \<Rightarrow> (loop_state \<Rightarrow> error + loop_state ctl) \<Rightarrow> loop_state \<Rightarrow> error + loop_state ctl" where
  "for_range 0 f s = Inr (Continue s)"
| "for_range (Suc n) f s =
     (case f s of
        Inl e \<Rightarrow> Inl e
      | Inr (Break s') \<Rightarrow> Inr (Break s')
      | Inr (Continue s') \<Rightarrow> for_range n f s')"

definition init_state :: "batch \<Rightarrow> loop_state" where
  "init_state x = \<lparr>cur_x = \<lparr>data = x, grad = None\<rparr>, cur_p_total = zeros_like x, evals = []\<rparr>"

text \<open>
  \<open>perturb\<close> returns the adversarial batch or the exception, together with the attack
  object as the call leaves it (\<open>self.num_classes\<close> is assigned before the loop).
\<close>

definition perturb ::
    "attack \<Rightarrow> (nat \<Rightarrow> nat) \<Rightarrow> batch \<Rightarrow> int list \<Rightarrow> (error + batch) \<times> attack" where
  "perturb self rnd x y =
     (let logits = forward (predict self) x;
          classes = map argsort_desc logits
      in case class_setup self rnd x logits classes of
           Inl e \<Rightarrow> (Inl e, self)
         | Inr self' \<Rightarrow>
             (case for_range (nat (nb_iter self')) (body self' classes x y) (init_state x) of
                Inl e \<Rightarrow> (Inl e, self')
              | Inr c \<Rightarrow> (Inr (data (cur_x (ctl_state c))), self')))"

subsection \<open>Observations of a run\<close>

text \<open>
  The state of the loop of \<open>perturb\<close> after at most \<open>i\<close> iterations: the same
  prologue and the same loop body, with the range cut at \<open>i\<close>.
\<close>

definition loop_prefix ::
    "attack \<Rightarrow> (nat \<Rightarrow> nat) \<Rightarrow> batch \<Rightarrow> int list \<Rightarrow> nat \<Rightarrow> error + loop_state ctl" where
  "loop_prefix self rnd x y i =
     (let logits = forward (predict self) x;
          classes = map argsort_desc logits
      in bindE (class_setup self rnd x logits classes) (\<lambda>self'.
           for_range i (body self' classes x y) (init_state x)))"

text \<open>Whether lines 111-121 raise.\<close>

definition setup_raises :: "attack \<Rightarrow> (nat \<Rightarrow> nat) \<Rightarrow> batch \<Rightarrow> bool" where
  "setup_raises self rnd x =
     (let logits = forward (predict self) x;
          classes = map argsort_desc logits
      in case class_setup self rnd x logits classes of Inl e \<Rightarrow> True | Inr self' \<Rightarrow> False)"

text \<open>The number of iterations begun: each one opens with the evaluation of \<open>k = 1\<close>.\<close>

definition iterations :: "loop_state \<Rightarrow> nat" where
  "iterations s = length (filter (\<lambda>k. k = 1) (evals s))"

text \<open>
  A gradient buffer is clean when it does not exist yet or holds zeros of the shape of
  the tensor.
\<close>

definition clean :: "gtensor \<Rightarrow> bool" where
  "clean x = (case grad x of None \<Rightarrow> True | Some b \<Rightarrow> b = zeros_like (data x))"

text \<open>
  Predicates on tensors: every element of absolute value at most \<open>b\<close>; every element
  within \<open>[lo, hi]\<close>; and \<open>xs\<close> is, row by row, of the shape of \<open>x0\<close>, within distance
  \<open>d\<close> of it and within \<open>[lo, hi]\<close>.
\<close>

definition tracks :: "real \<Rightarrow> real \<Rightarrow> real \<Rightarrow> batch \<Rightarrow> batch \<Rightarrow> bool" where
  "tracks d lo hi x0 xs =
     (length xs \<le> length x0 \<and>
      (\<forall>n<length xs. length (xs ! n) = length (x0 ! n) \<and>
         (\<forall>j<length (x0 ! n). \<bar>xs ! n ! j - x0 ! n ! j\<bar> \<le> d \<and> lo \<le> xs ! n ! j \<and> xs ! n ! j \<le> hi)))"

definition bounded :: "real \<Rightarrow> batch \<Rightarrow> bool" where
  "bounded b t = list_all (list_all (\<lambda>v. \<bar>v\<bar> \<le> b)) t"

definition in_range :: "real \<Rightarrow> real \<Rightarrow> batch \<Rightarrow> bool" where
  "in_range lo hi t = list_all (list_all (\<lambda>v. lo \<le> v \<and> v \<le> hi)) t"


text \<open>
  The shapes the loop keeps: the cumulative perturbation has the shape of the input, and
  the working point has no more samples than the input.
\<close>

definition shape_inv :: "batch \<Rightarrow> loop_state \<Rightarrow> bool" where
  "shape_inv x0 s =
     (map length (cur_p_total s) = map length x0 \<and> length (data (cur_x s)) \<le> length x0)"

text \<open>A random source that draws \<open>k\<close> for every sample.\<close>

definition draws :: "nat \<Rightarrow> nat \<Rightarrow> nat" where
  "draws k n = k"

subsection \<open>Example instances\<close>

text \<open>
  A two-class linear classifier on flattened samples, with scores \<open>[\<Sum>v, 1 - \<Sum>v]\<close> for
  every sample on its own, and its exact reverse-mode gradient.
\<close>

definition lin2_scores :: "vec \<Rightarrow> vec" where
  "lin2_scores v = [sum_list v, 1 - sum_list v]"

definition lin2 :: classifier where
  "lin2 = \<lparr>forward = map lin2_scores,
           backward = (\<lambda>x c. map2 (\<lambda>v cr. map (\<lambda>_. cr ! 0 - cr ! 1) v) x c)\<rparr>"

text \<open>
  A two-class classifier whose scores couple the samples of a batch (as a layer that
  normalises over the batch does): every sample is scored \<open>[m, 1 - m]\<close>, with \<open>m\<close> the sum
  of all features of the batch.
\<close>

definition coupled :: classifier where
  "coupled = \<lparr>forward = (\<lambda>x. map (\<lambda>_. [sum_list (concat x), 1 - sum_list (concat x)]) x),
              backward = (\<lambda>x c. map (map (\<lambda>_. sum_list (map (\<lambda>cr. cr ! 0 - cr ! 1) c))) x)\<rparr>"

text \<open>
  A three-class linear classifier with scores \<open>[\<Sum>v, 1 - \<Sum>v, 2 * \<Sum>v - 3/2]\<close>, and
  its exact reverse-mode gradient.
\<close>

definition lin3 :: classifier where
  "lin3 = \<lparr>forward = map (\<lambda>v. [sum_list v, 1 - sum_list v, 2 * sum_list v - 3 / 2]),
           backward = (\<lambda>x c. map2 (\<lambda>v cr. map (\<lambda>_. cr ! 0 - cr ! 1 + 2 * cr ! 2) v) x c)\<rparr>"

text \<open>The default configuration of the constructor, with \<open>nb_iter\<close> as given.\<close>

definition default_attack :: "classifier \<Rightarrow> int \<Rightarrow> attack" where
  "default_attack p n =
     \<lparr>predict = p, num_classes = None, nb_iter = n, eps = 1 / 10, random_class = False,
      overshoot = 2 / 100, clip_min = 0, clip_max = 1\<rparr>"

section \<open>Basic facts\<close>

lemmas model_defs =
  perturb_def loop_prefix_def setup_raises_def class_setup_def argsort_desc_def ncols_def
  init_state_def zeros_like_def body_def get_grads_logged_def get_grads_def
  get_deltas_logits_def bindE_def column_def gather1_def sum_deltas_gradient_def seed_def
  accumulate_def is_adv_def argmax_def stack1_def has_shape2_def best_directions_def
  get_distances_def argmin_def get_perturbations_def tadd_def tscale_def clampT_def
  clamp_def Let_def enumerate_eq_zip lin2_def default_attack_def clean_def iterations_def
  tracks_def bounded_def in_range_def draws_def lin3_def lin2_scores_def coupled_def

lemma bindE_Inl [simp]: "bindE (Inl e) f = Inl e"
  by (simp add: bindE_def)

lemma bindE_Inr [simp]: "bindE (Inr v) f = f v"
  by (simp add: bindE_def)

lemma bindE_eq_Inr: "bindE m f = Inr r \<longleftrightarrow> (\<exists>v. m = Inr v \<and> f v = Inr r)"
  by (cases m) auto

lemma map2_zero_left: "length r = length h \<Longrightarrow> map2 (+) (map (\<lambda>_. 0::real) r) h = h"
  by (induction r h rule: list_induct2) auto

lemma tadd_zeros_like: "map length a = map length g \<Longrightarrow> tadd (zeros_like a) g = g"
proof (induction a arbitrary: g)
  case Nil
  then show ?case by (simp add: tadd_def zeros_like_def)
next
  case (Cons r a)
  then obtain h g' where g: "g = h # g'" by (cases g) auto
  with Cons.prems have "length r = length h" "map length a = map length g'" by auto
  with Cons.IH [of g'] g show ?case
    by (simp add: tadd_def zeros_like_def map2_zero_left)
qed

lemma zeros_like_shape: "map length a = map length b \<Longrightarrow> zeros_like a = zeros_like b"
proof (induction a arbitrary: b)
  case Nil
  then show ?case by (simp add: zeros_like_def)
next
  case (Cons r a)
  then obtain h b' where b: "b = h # b'" by (cases b) auto
  with Cons.prems have "length r = length h" "map length a = map length b'" by auto
  with Cons.IH [of b'] b show ?case
    by (simp add: zeros_like_def map_replicate_const)
qed

subsection \<open>get\_grads\<close>

lemma get_grads_Inr:
  assumes "get_grads p x k classes = Inr (d, x')"
  shows "data x' = data x"
    and "g_logits d = forward p (data x)"
    and "g_grads d = accumulate (grad x) (sum_deltas_gradient p (data x) k classes)"
    and "grad x' = Some (zeros_like (g_grads d))"
  using assms
  by (auto simp: get_grads_def get_deltas_logits_def bindE_eq_Inr Let_def)

lemma accumulate_clean:
  "clean x \<Longrightarrow> map length g = map length (data x) \<Longrightarrow> accumulate (grad x) g = g"
  by (auto simp: clean_def accumulate_def tadd_zeros_like split: option.splits)

subsection \<open>The loop body\<close>

lemma get_grads_logged_Inr:
  "get_grads_logged p (x, lg) k classes = Inr (d, x', lg')
     \<longleftrightarrow> get_grads p x k classes = Inr (d, x') \<and> lg' = lg @ [k]"
  by (auto simp: get_grads_logged_def bindE_eq_Inr)

lemma get_grads_list_Inr:
  "get_grads_list p (x, lg) ks classes = Inr (ds, x', lg')
     \<Longrightarrow> data x' = data x \<and> lg' = lg @ ks \<and> length ds = length ks"
proof (induction ks arbitrary: x lg ds)
  case Nil
  then show ?case by simp
next
  case (Cons k ks)
  from Cons.prems obtain d x1 log1 ds' where
    1: "get_grads_logged p (x, lg) k classes = Inr (d, x1, log1)"
    and 2: "get_grads_list p (x1, log1) ks classes = Inr (ds', x', lg')"
    and 3: "ds = d # ds'"
    by (auto simp: bindE_eq_Inr)
  from 1 have "data x1 = data x" "log1 = lg @ [k]"
    by (auto simp: get_grads_logged_Inr dest: get_grads_Inr(1))
  with Cons.IH [OF 2] 3 show ?case by simp
qed

lemma body_BreakE:
  assumes "body self classes x0 y s = Inr (Break s')"
  obtains d1 x1 where "get_grads (predict self) (cur_x s) 1 classes = Inr (d1, x1)"
    and "list_all (\<lambda>b. b) (is_adv (forward (predict self) (data (cur_x s))) y)"
    and "s' = s\<lparr>cur_x := x1, evals := evals s @ [1]\<rparr>"
  using assms
  by (auto simp: body_def bindE_eq_Inr Let_def get_grads_logged_Inr
      dest: get_grads_Inr(2) split: if_splits option.splits)

lemma body_ContinueE:
  assumes "body self classes x0 y s = Inr (Continue s')"
  obtains p_step nc where "num_classes self = Some nc"
    and "map length p_step = map length x0"
    and "\<not> list_all (\<lambda>b. b) (is_adv (forward (predict self) (data (cur_x s))) y)"
    and "cur_p_total s' = clampT (- eps self) (eps self) (tadd (cur_p_total s) p_step)"
    and "cur_x s' = \<lparr>data = clampT (clip_min self) (clip_max self)
                       (where_rows (is_adv (forward (predict self) (data (cur_x s))) y)
                          (data (cur_x s))
                          (tadd x0 (tscale (1 + overshoot self) (cur_p_total s')))),
                     grad = None\<rparr>"
    and "evals s' = evals s @ 1 # [2..<nat nc]"
proof -
  from assms obtain d1 x1 log1 where
    g1: "get_grads_logged (predict self) (cur_x s, evals s) 1 classes = Inr (d1, x1, log1)"
    by (auto simp: body_def bindE_eq_Inr)
  then have g1': "get_grads (predict self) (cur_x s) 1 classes = Inr (d1, x1)"
    and l1: "log1 = evals s @ [1]"
    by (auto simp: get_grads_logged_Inr)
  note lg = get_grads_Inr(2) [OF g1'] and dx = get_grads_Inr(1) [OF g1']
  from assms g1 lg have nadv:
    "\<not> list_all (\<lambda>b. b) (is_adv (forward (predict self) (data (cur_x s))) y)"
    by (auto simp: body_def Let_def split: if_splits)
  with assms g1 lg obtain nc where nc: "num_classes self = Some nc"
    by (auto simp: body_def Let_def split: if_splits option.splits)
  with assms g1 lg nadv obtain ds x2 log2 where
    g2: "get_grads_list (predict self) (x1, log1) [2..<nat nc] classes = Inr (ds, x2, log2)"
    by (auto simp: body_def Let_def bindE_eq_Inr)
  from get_grads_list_Inr [OF g2] dx l1 have
    dx2: "data x2 = data (cur_x s)" and l2: "log2 = evals s @ 1 # [2..<nat nc]" by auto
  from assms g1 lg nadv nc g2 obtain p_step where
    "map length p_step = map length x0"
    "s' = \<lparr>cur_x = \<lparr>data = clampT (clip_min self) (clip_max self)
                       (where_rows (is_adv (forward (predict self) (data (cur_x s))) y)
                          (data x2)
                          (tadd x0 (tscale (1 + overshoot self)
                             (clampT (- eps self) (eps self) (tadd (cur_p_total s) p_step))))),
                     grad = None\<rparr>,
           cur_p_total = clampT (- eps self) (eps self) (tadd (cur_p_total s) p_step),
           evals = log2\<rparr>"
    by (auto simp: body_def Let_def bindE_eq_Inr split: if_splits)
  with dx2 l2 nc nadv that show thesis by simp
qed

subsection \<open>Loops and tensors\<close>

lemma for_range_invariant:
  assumes step: "\<And>s c. I s \<Longrightarrow> f s = Inr c \<Longrightarrow> I (ctl_state c)"
    and init: "I s" and run: "for_range n f s = Inr c"
  shows "I (ctl_state c)"
  using init run
proof (induction n arbitrary: s)
  case 0
  then show ?case by auto
next
  case (Suc n)
  show ?case
  proof (cases "f s")
    case (Inl e)
    with Suc.prems show ?thesis by simp
  next
    case (Inr c')
    show ?thesis
    proof (cases c')
      case (Continue s')
      with Inr Suc.prems have "for_range n f s' = Inr c" by simp
      moreover from step [OF Suc.prems(1) Inr] Continue have "I s'" by simp
      ultimately show ?thesis by (rule Suc.IH [rotated])
    next
      case (Break s')
      with Inr Suc.prems have "c = Break s'" by simp
      with step [OF Suc.prems(1) Inr] Break show ?thesis by simp
    qed
  qed
qed

lemma clamp_abs_le: "\<bar>clamp (- e) e v\<bar> \<le> \<bar>e\<bar>"
  by (auto simp: clamp_def min_def max_def abs_if)

lemma clamp_sym_range: "0 \<le> e \<Longrightarrow> - e \<le> clamp (- e) e v \<and> clamp (- e) e v \<le> e"
  by (auto simp: clamp_def min_def max_def)


lemma clamp_id: "lo \<le> v \<Longrightarrow> v \<le> hi \<Longrightarrow> clamp lo hi v = v"
  by (auto simp: clamp_def min_def max_def)

lemma bounded_clampT: "bounded \<bar>e\<bar> (clampT (- e) e t)"
  by (simp add: bounded_def clampT_def list_all_iff clamp_abs_le)

lemma in_range_clampT: "0 \<le> e \<Longrightarrow> in_range (- e) e (clampT (- e) e t)"
  by (simp add: in_range_def clampT_def list_all_iff clamp_sym_range)

lemma bounded_zeros_like: "0 \<le> b \<Longrightarrow> bounded b (zeros_like t)"
  by (simp add: bounded_def zeros_like_def list_all_iff)

lemma map_length_clampT [simp]: "map length (clampT lo hi t) = map length t"
  by (simp add: clampT_def)

lemma map_length_zeros_like [simp]: "map length (zeros_like t) = map length t"
  by (simp add: zeros_like_def)

lemma map_length_tadd: "map length a = map length b \<Longrightarrow> map length (tadd a b) = map length a"
proof (induction a arbitrary: b)
  case Nil
  then show ?case by (simp add: tadd_def)
next
  case (Cons r a)
  then obtain h b' where b: "b = h # b'" by (cases b) auto
  with Cons.prems have "length r = length h" "map length a = map length b'" by auto
  with Cons.IH [of b'] b show ?case by (simp add: tadd_def)
qed

lemma shape_nth:
  assumes "map length a = map length b"
  shows "length a = length b" and "n < length b \<Longrightarrow> length (a ! n) = length (b ! n)"
proof -
  show l: "length a = length b" using assms by (rule map_eq_imp_length_eq)
  assume "n < length b"
  with l have "map length a ! n = length (a ! n)" "map length b ! n = length (b ! n)" by simp_all
  with assms show "length (a ! n) = length (b ! n)" by simp
qed

lemma length_where_rows:
  "length (where_rows m a b) = min (length m) (min (length a) (length b))"
  by (induction m a b rule: where_rows.induct) auto

lemma nth_where_rows:
  "n < length (where_rows m a b) \<Longrightarrow> where_rows m a b ! n = (if m ! n then a ! n else b ! n)"
proof (induction m a b arbitrary: n rule: where_rows.induct)
  case (1 m ms a as b bs)
  then show ?case by (cases n) auto
qed auto

lemma tadd_tscale_nth:
  assumes sh: "map length p = map length x0" and n: "n < length x0"
  shows "length (tadd x0 (tscale c p)) = length x0"
    and "length (tadd x0 (tscale c p) ! n) = length (x0 ! n)"
    and "j < length (x0 ! n) \<Longrightarrow> tadd x0 (tscale c p) ! n ! j = x0 ! n ! j + c * p ! n ! j"
proof -
  note l = shape_nth(1) [OF sh] and ln = shape_nth(2) [OF sh n]
  show "length (tadd x0 (tscale c p)) = length x0"
    using l by (simp add: tadd_def tscale_def)
  show "length (tadd x0 (tscale c p) ! n) = length (x0 ! n)"
    using l ln n by (simp add: tadd_def tscale_def)
  assume "j < length (x0 ! n)"
  then show "tadd x0 (tscale c p) ! n ! j = x0 ! n ! j + c * p ! n ! j"
    using l ln n by (simp add: tadd_def tscale_def)
qed




subsection \<open>Runs of perturb\<close>

lemma class_setup_Inr:
  "class_setup self rnd x l c = Inr self' \<Longrightarrow> \<exists>nc. self' = self\<lparr>num_classes := Some nc\<rparr>"
  by (auto simp: class_setup_def bindE_eq_Inr Let_def split: if_splits option.splits)


lemma loop_prefix_InrE:
  assumes "loop_prefix self rnd x y i = Inr c"
  obtains self' where
    "class_setup self rnd x (forward (predict self) x)
       (map argsort_desc (forward (predict self) x)) = Inr self'"
    and "for_range i (body self' (map argsort_desc (forward (predict self) x)) x y)
           (init_state x) = Inr c"
  using assms by (auto simp: loop_prefix_def Let_def bindE_eq_Inr)

lemma perturb_loop_prefix:
  "fst (perturb self rnd x y) =
     (case loop_prefix self rnd x y (nat (nb_iter self)) of
        Inl e \<Rightarrow> Inl e | Inr c \<Rightarrow> Inr (data (cur_x (ctl_state c))))"
proof (cases "class_setup self rnd x (forward (predict self) x)
       (map argsort_desc (forward (predict self) x))")
  case (Inl e)
  then show ?thesis by (simp add: perturb_def loop_prefix_def Let_def)
next
  case (Inr self')
  from class_setup_Inr [OF Inr] have "nb_iter self' = nb_iter self" by auto
  with Inr show ?thesis
    by (simp add: perturb_def loop_prefix_def Let_def split: sum.splits)
qed

lemma in_range_zeros_like: "lo \<le> 0 \<Longrightarrow> 0 \<le> hi \<Longrightarrow> in_range lo hi (zeros_like t)"
  by (simp add: in_range_def zeros_like_def list_all_iff)


lemma p_total_step:
  assumes "map length p = map length x0" "map length p_step = map length x0"
  shows "map length (clampT (- e) e (tadd p p_step)) = map length x0"
  using assms by (simp add: map_length_tadd)




lemma class_setup_eps:
  "class_setup self rnd x l c = Inr self' \<Longrightarrow>
     eps self' = eps self \<and> overshoot self' = overshoot self \<and> clip_min self' = clip_min self
     \<and> clip_max self' = clip_max self \<and> nb_iter self' = nb_iter self
     \<and> random_class self' = random_class self \<and> predict self' = predict self"
  by (drule class_setup_Inr) auto

lemma budget_inv_body:
  assumes inv: "bounded \<bar>eps self\<bar> (cur_p_total s)
                \<and> (0 \<le> eps self \<longrightarrow> in_range (- eps self) (eps self) (cur_p_total s))"
    and b: "body self classes x0 y s = Inr c"
  shows "bounded \<bar>eps self\<bar> (cur_p_total (ctl_state c))
         \<and> (0 \<le> eps self \<longrightarrow> in_range (- eps self) (eps self) (cur_p_total (ctl_state c)))"
proof (cases c)
  case (Break s')
  with b have "body self classes x0 y s = Inr (Break s')" by simp
  then obtain d1 x1 where "s' = s\<lparr>cur_x := x1, evals := evals s @ [1]\<rparr>"
    by (rule body_BreakE)
  with inv Break show ?thesis by simp
next
  case (Continue s')
  with b have "body self classes x0 y s = Inr (Continue s')" by simp
  then obtain p_step where
    "cur_p_total s' = clampT (- eps self) (eps self) (tadd (cur_p_total s) p_step)"
    by (rule body_ContinueE)
  with Continue show ?thesis by (simp add: bounded_clampT in_range_clampT)
qed

subsection \<open>Iterations, early exit and success of the first evaluation\<close>

lemma for_range_add:
  "for_range (i + j) f s =
     (case for_range i f s of
        Inl e \<Rightarrow> Inl e
      | Inr (Continue s') \<Rightarrow> for_range j f s'
      | Inr (Break s') \<Rightarrow> Inr (Break s'))"
  by (induction i arbitrary: s) (auto split: sum.splits ctl.splits)

lemma body_all_adv:
  assumes "get_grads (predict self) (cur_x s) 1 classes = Inr (d1, x1)"
    and "list_all (\<lambda>b. b) (is_adv (g_logits d1) y)"
  shows "body self classes x0 y s = Inr (Break (s\<lparr>cur_x := x1, evals := evals s @ [1]\<rparr>))"
  using assms by (simp add: body_def get_grads_logged_def)

lemma iterations_body:
  assumes "body self classes x0 y s = Inr c"
  shows "iterations (ctl_state c) = Suc (iterations s)"
proof (cases c)
  case (Break s')
  with assms have "body self classes x0 y s = Inr (Break s')" by simp
  then obtain d1 x1 where "s' = s\<lparr>cur_x := x1, evals := evals s @ [1]\<rparr>"
    by (rule body_BreakE)
  with Break show ?thesis by (simp add: iterations_def)
next
  case (Continue s')
  with assms have "body self classes x0 y s = Inr (Continue s')" by simp
  then obtain nc where "evals s' = evals s @ 1 # [2..<nat nc]"
    by (rule body_ContinueE)
  moreover have "filter (\<lambda>k. k = 1) [2..<nat nc] = []"
    by (auto simp: filter_empty_conv)
  ultimately show ?thesis using Continue by (simp add: iterations_def)
qed

lemma iterations_for_range:
  "for_range n (body self classes x0 y) s = Inr c \<Longrightarrow> iterations (ctl_state c) \<le> iterations s + n"
proof (induction n arbitrary: s)
  case 0
  then show ?case by auto
next
  case (Suc n)
  then obtain c' where b: "body self classes x0 y s = Inr c'"
    by (cases "body self classes x0 y s") auto
  show ?case
  proof (cases c')
    case (Continue s')
    with b Suc.prems have "for_range n (body self classes x0 y) s' = Inr c" by simp
    from Suc.IH [OF this] iterations_body [OF b] Continue show ?thesis by simp
  next
    case (Break s')
    with b Suc.prems have "c = Break s'" by simp
    with iterations_body [OF b] Break show ?thesis by simp
  qed
qed

lemma length_argsort_desc [simp]: "length (argsort_desc row) = length row"
  by (simp add: argsort_desc_def)

lemma set_argsort_desc [simp]: "set (argsort_desc row) = {0..<length row}"
  by (simp add: argsort_desc_def)

lemma argsort_desc_nth_less: "k < length row \<Longrightarrow> argsort_desc row ! k < length row"
  using nth_mem [of k "argsort_desc row"] by simp

lemma column_argsort:
  "list_all (\<lambda>row. k < length row) L \<Longrightarrow>
     column (map argsort_desc L) k = Inr (map (\<lambda>row. argsort_desc row ! k) L)"
  by (simp add: column_def list_all_iff)

lemma index_rows_Inr:
  "length idx \<le> length t \<Longrightarrow> (\<forall>n<length idx. idx ! n < length (t ! n)) \<Longrightarrow>
     \<exists>vs. index_rows t idx = Inr vs \<and> length vs = length idx
          \<and> (\<forall>n<length idx. vs ! n = t ! n ! (idx ! n))"
proof (induction t idx rule: index_rows.induct)
  case (1 t)
  then show ?case by simp
next
  case (2 i idx)
  then show ?case by simp
next
  case (3 r t i idx)
  from "3.prems" have i: "i < length r" by auto
  from "3.prems" have "length idx \<le> length t" "\<forall>n<length idx. idx ! n < length (t ! n)"
    by auto
  with "3.IH" [OF i] obtain vs where vs: "index_rows t idx = Inr vs" "length vs = length idx"
    "\<forall>n<length idx. vs ! n = t ! n ! (idx ! n)" by blast
  have "\<forall>n<length (i # idx). (r ! i # vs) ! n = (r # t) ! n ! ((i # idx) ! n)"
    using vs(3) by (auto simp: nth_Cons split: nat.splits)
  with i vs show ?case by simp
qed

lemma get_grads_succeeds:
  assumes "list_all (\<lambda>row. k < length row) (forward p (data x))"
    and "list_all (\<lambda>row. 0 < length row) (forward p (data x))"
  shows "\<exists>d x'. get_grads p x k (map argsort_desc (forward p (data x))) = Inr (d, x')"
proof -
  let ?L = "forward p (data x)"
  have c0: "column (map argsort_desc ?L) 0 = Inr (map (\<lambda>row. argsort_desc row ! 0) ?L)"
    by (rule column_argsort [OF assms(2)])
  have ck: "column (map argsort_desc ?L) k = Inr (map (\<lambda>row. argsort_desc row ! k) ?L)"
    by (rule column_argsort [OF assms(1)])
  have "\<exists>vs. index_rows ?L (map (\<lambda>row. argsort_desc row ! 0) ?L) = Inr vs
      \<and> length vs = length (map (\<lambda>row. argsort_desc row ! 0) ?L)
      \<and> (\<forall>n<length (map (\<lambda>row. argsort_desc row ! 0) ?L).
            vs ! n = ?L ! n ! (map (\<lambda>row. argsort_desc row ! 0) ?L ! n))"
    using assms(2) by (intro index_rows_Inr) (auto simp: list_all_length argsort_desc_nth_less)
  then obtain l0 where l0: "index_rows ?L (map (\<lambda>row. argsort_desc row ! 0) ?L) = Inr l0"
    by blast
  have "\<exists>vs. index_rows ?L (map (\<lambda>row. argsort_desc row ! k) ?L) = Inr vs
      \<and> length vs = length (map (\<lambda>row. argsort_desc row ! k) ?L)
      \<and> (\<forall>n<length (map (\<lambda>row. argsort_desc row ! k) ?L).
            vs ! n = ?L ! n ! (map (\<lambda>row. argsort_desc row ! k) ?L ! n))"
    using assms(1) by (intro index_rows_Inr) (auto simp: list_all_length argsort_desc_nth_less)
  then obtain lk where lk: "index_rows ?L (map (\<lambda>row. argsort_desc row ! k) ?L) = Inr lk"
    by blast
  from c0 ck l0 lk show ?thesis
    by (simp add: get_grads_def get_deltas_logits_def Let_def)
qed

subsection \<open>Runs without a completed iteration\<close>

lemma setup_raises_iff:
  "\<not> setup_raises self rnd x \<longleftrightarrow>
     (\<exists>self'. class_setup self rnd x (forward (predict self) x)
                (map argsort_desc (forward (predict self) x)) = Inr self')"
  by (auto simp: setup_raises_def Let_def split: sum.splits)

lemma setup_nonrandom: "\<not> random_class self \<Longrightarrow> \<not> setup_raises self rnd x"
  by (auto simp: setup_raises_iff class_setup_def split: option.splits)

lemma perturb_no_iteration:
  assumes "\<not> setup_raises self rnd x" and "nb_iter self \<le> 0"
  shows "fst (perturb self rnd x y) = Inr x"
proof -
  from assms(1) obtain self' where
    su: "class_setup self rnd x (forward (predict self) x)
                (map argsort_desc (forward (predict self) x)) = Inr self'"
    by (auto simp: setup_raises_iff)
  from class_setup_eps [OF su] assms(2) have "nat (nb_iter self') = 0" by simp
  with su show ?thesis by (simp add: perturb_def Let_def init_state_def)
qed


lemma index_rows_length: "index_rows t idx = Inr vs \<Longrightarrow> length vs = length idx"
  by (induction t idx arbitrary: vs rule: index_rows.induct)
    (auto simp: bindE_eq_Inr split: if_splits)

lemma column_length: "column t k = Inr c \<Longrightarrow> length c = length t"
  by (auto simp: column_def split: if_splits)

lemma get_grads_deltas_length:
  assumes "get_grads p x k classes = Inr (d, x')"
  shows "length (g_deltas d) = length classes"
  using assms
  by (auto simp: get_grads_def get_deltas_logits_def bindE_eq_Inr Let_def
      dest!: index_rows_length column_length)

lemma length_is_adv: "length (is_adv L y) = min (length L) (length y)"
  by (simp add: is_adv_def)

lemma body_too_few_classes:
  assumes g: "get_grads (predict self) (cur_x s) 1 classes = Inr (d1, x1)"
    and nadv: "\<not> list_all (\<lambda>b. b) (is_adv (g_logits d1) y)"
    and nc: "num_classes self = Some nc" "nc < 2"
    and ne: "classes \<noteq> []"
  shows "body self classes x0 y s = Inl AssertionError"
proof -
  from nc have ks: "[2..<nat nc] = []" by simp
  have gl: "get_grads_list (predict self) (x1, evals s @ [1]) [2..<nat nc] classes
              = Inr ([], x1, evals s @ [1])"
    by (simp only: ks get_grads_list.simps)
  from get_grads_deltas_length [OF g] ne have len: "0 < length (g_deltas d1)" by simp
  have sh: "\<not> has_shape2 (map (\<lambda>n. [g_deltas d1 ! n]) [0..<length (g_deltas d1)]) N (nc - 1)" for N
    using len nc(2) by (auto simp: has_shape2_def list_all_iff)
  show ?thesis
    using g nadv nc(1) gl sh
    by (simp add: body_def get_grads_logged_def stack1_def Let_def)
qed

subsection \<open>The attack object across calls\<close>

lemma class_setup_idem:
  assumes "class_setup self rnd1 x L cl = Inr s1" and "class_setup s1 rnd2 x L cl = Inr s2"
  shows "s2 = s1"
  using assms
  by (auto simp: class_setup_def bindE_eq_Inr Let_def split: if_splits option.splits)

lemma class_setup_num_classes:
  assumes "class_setup self rnd x L cl = Inr s1"
  shows "num_classes s1 =
           (if random_class self then Some 2
            else Some (case num_classes self of None \<Rightarrow> int (ncols L)
                       | Some m \<Rightarrow> min m (int (ncols L))))"
  using assms
  by (auto simp: class_setup_def bindE_eq_Inr Let_def split: if_splits option.splits)

lemma perturb_setup_Inr:
  assumes "class_setup self rnd x (forward (predict self) x)
             (map argsort_desc (forward (predict self) x)) = Inr s1"
  shows "perturb self rnd x y =
     (case for_range (nat (nb_iter s1)) (body s1 (map argsort_desc (forward (predict self) x)) x y)
             (init_state x) of
        Inl e \<Rightarrow> (Inl e, s1)
      | Inr c \<Rightarrow> (Inr (data (cur_x (ctl_state c))), s1))"
  using assms by (simp add: perturb_def Let_def)

lemma perturb_setup_Inl:
  assumes "class_setup self rnd x (forward (predict self) x)
             (map argsort_desc (forward (predict self) x)) = Inl e"
  shows "perturb self rnd x y = (Inl e, self)"
  using assms by (simp add: perturb_def Let_def)

lemma perturb_frame:
  assumes "perturb self rnd x y = (r1, s1)"
  shows "predict s1 = predict self \<and> nb_iter s1 = nb_iter self \<and> eps s1 = eps self
         \<and> random_class s1 = random_class self \<and> overshoot s1 = overshoot self
         \<and> clip_min s1 = clip_min self \<and> clip_max s1 = clip_max self"
proof (cases "class_setup self rnd x (forward (predict self) x)
             (map argsort_desc (forward (predict self) x))")
  case (Inl e)
  from perturb_setup_Inl [OF Inl, of y] assms show ?thesis by simp
next
  case (Inr t)
  from perturb_setup_Inr [OF Inr, of y] assms have "s1 = t" by (auto split: sum.splits)
  with class_setup_eps [OF Inr] show ?thesis by simp
qed

lemma perturb_repeat:
  assumes p1: "perturb self rnd1 x y = (r1, s1)" and p2: "perturb s1 rnd2 x y = (r2, s2)"
    and ok1: "\<not> setup_raises self rnd1 x" and ok2: "\<not> setup_raises s1 rnd2 x"
  shows "r2 = r1 \<and> s2 = s1"
proof -
  let ?L = "forward (predict self) x"
  let ?cl = "map argsort_desc ?L"
  from ok1 obtain t1 where su: "class_setup self rnd1 x ?L ?cl = Inr t1"
    by (auto simp: setup_raises_iff)
  from perturb_setup_Inr [OF su, of y] p1 have "s1 = t1" by (auto split: sum.splits)
  with su have su1: "class_setup self rnd1 x ?L ?cl = Inr s1" by simp
  from perturb_frame [OF p1] have pr: "predict s1 = predict self" by simp
  from ok2 pr obtain t2 where su2: "class_setup s1 rnd2 x ?L ?cl = Inr t2"
    by (auto simp: setup_raises_iff)
  from class_setup_idem [OF su1 su2] have "t2 = s1" .
  with su2 pr have "class_setup s1 rnd2 x (forward (predict s1) x)
             (map argsort_desc (forward (predict s1) x)) = Inr s1" by simp
  from perturb_setup_Inr [OF this, of y] pr
  have "perturb s1 rnd2 x y =
     (case for_range (nat (nb_iter s1)) (body s1 ?cl x y) (init_state x) of
        Inl e \<Rightarrow> (Inl e, s1)
      | Inr c \<Rightarrow> (Inr (data (cur_x (ctl_state c))), s1))" by simp
  also have "\<dots> = perturb self rnd1 x y"
    by (rule perturb_setup_Inr [OF su1, symmetric])
  finally show ?thesis using p1 p2 by simp
qed

subsection \<open>The nearest boundary\<close>

lemma arg_scan_min:
  assumes "b < i" and "i + length vs = length xs" and "drop i xs = vs" and "bv = xs ! b"
    and "\<forall>j<i. bv \<le> xs ! j" and "\<forall>j<b. bv < xs ! j"
  shows "arg_scan (<) b bv i vs < length xs
         \<and> (\<forall>j<length xs. xs ! arg_scan (<) b bv i vs \<le> xs ! j)
         \<and> (\<forall>j<arg_scan (<) b bv i vs. xs ! arg_scan (<) b bv i vs < xs ! j)"
  using assms
proof (induction vs arbitrary: b bv i)
  case Nil
  then show ?case by simp
next
  case (Cons v vs)
  from Cons.prems(2) have i: "i < length xs" by simp
  from Cons_nth_drop_Suc [OF i] Cons.prems(3) have v: "v = xs ! i" and dr: "drop (Suc i) xs = vs"
    by simp_all
  from Cons.prems(2) have len: "Suc i + length vs = length xs" by simp
  show ?case
  proof (cases "v < bv")
    case True
    have 1: "\<forall>j<Suc i. v \<le> xs ! j"
      using True Cons.prems(5) v by (auto simp: less_Suc_eq)
    have 2: "\<forall>j<i. v < xs ! j"
      using True Cons.prems(5) by force
    from Cons.IH [of i "Suc i" v, OF _ len dr v 1 2] True show ?thesis by simp
  next
    case False
    have 1: "\<forall>j<Suc i. bv \<le> xs ! j"
      using False Cons.prems(5) v by (auto simp: less_Suc_eq)
    from Cons.prems(1) have b: "b < Suc i" by simp
    from Cons.IH [of b "Suc i" bv, OF b len dr Cons.prems(4) 1 Cons.prems(6)] False
    show ?thesis by simp
  qed
qed

lemma argmin_first_min:
  assumes "xs \<noteq> []"
  shows "argmin xs < length xs \<and> (\<forall>j<length xs. xs ! argmin xs \<le> xs ! j)
         \<and> (\<forall>j<argmin xs. xs ! argmin xs < xs ! j)"
proof -
  from assms obtain v vs where xs: "xs = v # vs" by (cases xs) auto
  have "arg_scan (<) 0 v 1 vs < length xs
         \<and> (\<forall>j<length xs. xs ! arg_scan (<) 0 v 1 vs \<le> xs ! j)
         \<and> (\<forall>j<arg_scan (<) 0 v 1 vs. xs ! arg_scan (<) 0 v 1 vs < xs ! j)"
    by (rule arg_scan_min) (simp_all add: xs)
  then show ?thesis by (simp add: argmin_def xs)
qed

lemma has_shape2_nth:
  "has_shape2 t N M \<longleftrightarrow> length t = N \<and> (\<forall>n<N. int (length (t ! n)) = M)"
  by (auto simp: has_shape2_def list_all_length)

lemma get_distances_nth:
  assumes "length deltas = N" "length grads = N" "n < N"
    and "length (deltas ! n) = M" "length (grads ! n) = M"
  shows "length (get_distances deltas grads) = N"
    and "length (get_distances deltas grads ! n) = M"
    and "j < M \<Longrightarrow> get_distances deltas grads ! n ! j
           = \<bar>deltas ! n ! j\<bar> / (sum_list (map abs (grads ! n ! j)) + 1 / 10 ^ 8)"
  using assms by (simp_all add: get_distances_def)

subsection \<open>Frozen samples\<close>

lemma shape_inv_init: "shape_inv x (init_state x)"
  by (simp add: shape_inv_def init_state_def)

lemma shape_inv_body:
  assumes inv: "shape_inv x0 s" and b: "body self classes x0 y s = Inr c"
  shows "shape_inv x0 (ctl_state c)"
proof (cases c)
  case (Break s')
  with b have "body self classes x0 y s = Inr (Break s')" by simp
  then obtain d1 x1 where g: "get_grads (predict self) (cur_x s) 1 classes = Inr (d1, x1)"
    and s': "s' = s\<lparr>cur_x := x1, evals := evals s @ [1]\<rparr>"
    by (rule body_BreakE)
  from get_grads_Inr(1) [OF g] s' inv Break show ?thesis by (simp add: shape_inv_def)
next
  case (Continue s')
  with b have "body self classes x0 y s = Inr (Continue s')" by simp
  then obtain p_step nc where ps: "map length p_step = map length x0"
    and p': "cur_p_total s' = clampT (- eps self) (eps self) (tadd (cur_p_total s) p_step)"
    and x': "cur_x s' = \<lparr>data = clampT (clip_min self) (clip_max self)
                       (where_rows (is_adv (forward (predict self) (data (cur_x s))) y)
                          (data (cur_x s))
                          (tadd x0 (tscale (1 + overshoot self) (cur_p_total s')))),
                     grad = None\<rparr>"
    by (rule body_ContinueE)
  from inv have sh: "map length (cur_p_total s) = map length x0"
    and lx: "length (data (cur_x s)) \<le> length x0"
    by (simp_all add: shape_inv_def)
  have "map length (cur_p_total s') = map length x0"
    unfolding p' by (rule p_total_step [OF sh ps])
  moreover have "length (data (cur_x s')) \<le> length x0"
    unfolding x' using lx by (simp add: clampT_def length_where_rows)
  ultimately show ?thesis using Continue by (simp add: shape_inv_def)
qed

lemma nth_is_adv:
  "n < length L \<Longrightarrow> n < length y \<Longrightarrow> is_adv L y ! n = (int (argmax (L ! n)) \<noteq> y ! n)"
  by (simp add: is_adv_def)

lemma clamp_row_id:
  "list_all (\<lambda>v. lo \<le> v \<and> v \<le> hi) row \<Longrightarrow> map (clamp lo hi) row = row"
  by (induction row) (simp_all add: clamp_id)

lemma frozen_body:
  assumes per: "forward (predict self) = map f"
    and inv: "shape_inv x0 s"
    and n: "n < length (data (cur_x s))" "n < length y"
    and adv: "int (argmax (f (data (cur_x s) ! n))) \<noteq> y ! n"
    and rg: "list_all (\<lambda>v. clip_min self \<le> v \<and> v \<le> clip_max self) (data (cur_x s) ! n)"
    and b: "body self classes x0 y s = Inr c"
  shows "n < length (data (cur_x (ctl_state c)))
         \<and> data (cur_x (ctl_state c)) ! n = data (cur_x s) ! n"
proof (cases c)
  case (Break s')
  with b have "body self classes x0 y s = Inr (Break s')" by simp
  then obtain d1 x1 where g: "get_grads (predict self) (cur_x s) 1 classes = Inr (d1, x1)"
    and s': "s' = s\<lparr>cur_x := x1, evals := evals s @ [1]\<rparr>"
    by (rule body_BreakE)
  from get_grads_Inr(1) [OF g] s' n Break show ?thesis by simp
next
  case (Continue s')
  let ?x = "data (cur_x s)"
  let ?adv = "is_adv (forward (predict self) ?x) y"
  let ?new = "tadd x0 (tscale (1 + overshoot self) (cur_p_total s'))"
  from Continue b have "body self classes x0 y s = Inr (Continue s')" by simp
  then obtain p_step nc where
    x': "cur_x s' = \<lparr>data = clampT (clip_min self) (clip_max self) (where_rows ?adv ?x ?new),
                     grad = None\<rparr>"
    by (rule body_ContinueE)
  from shape_inv_body [OF inv b] Continue have sh': "map length (cur_p_total s') = map length x0"
    by (simp add: shape_inv_def)
  from inv n have n0: "n < length x0" by (simp add: shape_inv_def)
  have lnew: "length ?new = length x0" by (rule tadd_tscale_nth(1) [OF sh' n0])
  have ladv: "length ?adv = min (length ?x) (length y)" by (simp add: per length_is_adv)
  have nw: "n < length (where_rows ?adv ?x ?new)"
    using n n0 lnew ladv by (simp add: length_where_rows)
  have "?adv ! n = (int (argmax (f (?x ! n))) \<noteq> y ! n)"
    using n by (simp add: per nth_is_adv)
  with adv have "?adv ! n" by simp
  with nw have "where_rows ?adv ?x ?new ! n = ?x ! n" by (simp add: nth_where_rows)
  with nw rg have "clampT (clip_min self) (clip_max self) (where_rows ?adv ?x ?new) ! n = ?x ! n"
    by (simp add: clampT_def clamp_row_id)
  with nw x' Continue show ?thesis by (simp add: clampT_def)
qed

lemma frozen_for_range:
  assumes per: "forward (predict self) = map f"
    and inv: "shape_inv x0 s"
    and n: "n < length (data (cur_x s))" "n < length y"
    and adv: "int (argmax (f (data (cur_x s) ! n))) \<noteq> y ! n"
    and rg: "list_all (\<lambda>v. clip_min self \<le> v \<and> v \<le> clip_max self) (data (cur_x s) ! n)"
    and run: "for_range j (body self classes x0 y) s = Inr c"
  shows "n < length (data (cur_x (ctl_state c)))
         \<and> data (cur_x (ctl_state c)) ! n = data (cur_x s) ! n"
proof -
  let ?I = "\<lambda>t. shape_inv x0 t \<and> n < length (data (cur_x t))
                \<and> data (cur_x t) ! n = data (cur_x s) ! n"
  have step: "?I (ctl_state c')" if i: "?I t" and b: "body self classes x0 y t = Inr c'" for t c'
  proof -
    from i have eq: "data (cur_x t) ! n = data (cur_x s) ! n" by simp
    from i have "shape_inv x0 (ctl_state c')" using shape_inv_body [OF _ b] by simp
    moreover have "n < length (data (cur_x (ctl_state c')))
         \<and> data (cur_x (ctl_state c')) ! n = data (cur_x t) ! n"
      using i n(2) adv rg b unfolding eq [symmetric]
      by (intro frozen_body [OF per, of x0 t n y classes c']) simp_all
    ultimately show ?thesis using eq by simp
  qed
  have "?I s" using inv n by simp
  then have "?I (ctl_state c)" using run
    by (rule for_range_invariant [where I = ?I, rotated]) (rule step)
  then show ?thesis by simp
qed

lemma shape_inv_for_range:
  assumes "shape_inv x0 s" and "for_range i (body self classes x0 y) s = Inr c"
  shows "shape_inv x0 (ctl_state c)"
  using assms by (rule for_range_invariant [rotated]) (rule shape_inv_body)

lemma for_range_after:
  assumes "for_range i f s0 = Inr c0" and "for_range (i + j) f s0 = Inr c"
  shows "for_range j f (ctl_state c0) = Inr c \<or> (c = c0 \<and> (\<exists>t. c0 = Break t))"
  using assms by (cases c0) (auto simp: for_range_add)

subsection \<open>Gradient buffers within a run\<close>

text \<open>
  Every iteration of the loop of \<open>perturb\<close> starts on a tensor without a gradient buffer,
  and a sequence of calls of \<open>get_grads\<close> from a clean buffer returns, for every challenger
  class, the gradient of its summed score gaps.
\<close>

lemma get_grads_clean:
  assumes ok: "get_grads p x k classes = Inr (d, x')"
    and buf: "clean x"
    and shape: "map length (sum_deltas_gradient p (data x) k classes) = map length (data x)"
  shows "g_grads d = sum_deltas_gradient p (data x) k classes \<and> data x' = data x \<and> clean x'"
proof -
  have g: "g_grads d = sum_deltas_gradient p (data x) k classes"
    using get_grads_Inr(3) [OF ok] accumulate_clean [OF buf shape] by simp
  have d: "data x' = data x" by (rule get_grads_Inr(1) [OF ok])
  have "grad x' = Some (zeros_like (data x'))"
    using get_grads_Inr(4) [OF ok] g d zeros_like_shape [OF shape] by simp
  with g d show ?thesis by (simp add: clean_def)
qed

lemma get_grads_list_gradients:
  assumes "get_grads_list p (x, lg) ks classes = Inr (ds, x', lg')"
    and "clean x"
    and "\<forall>k\<in>set ks. map length (sum_deltas_gradient p (data x) k classes) = map length (data x)"
  shows "map g_grads ds = map (\<lambda>k. sum_deltas_gradient p (data x) k classes) ks \<and> clean x'"
  using assms
proof (induction ks arbitrary: x lg ds)
  case Nil
  then show ?case by simp
next
  case (Cons k ks)
  from Cons.prems(1) obtain d x1 lg1 ds' where
    1: "get_grads_logged p (x, lg) k classes = Inr (d, x1, lg1)"
    and 2: "get_grads_list p (x1, lg1) ks classes = Inr (ds', x', lg')"
    and 3: "ds = d # ds'"
    by (auto simp: bindE_eq_Inr)
  from 1 have g: "get_grads p x k classes = Inr (d, x1)" by (simp add: get_grads_logged_Inr)
  from Cons.prems(3) have sk: "map length (sum_deltas_gradient p (data x) k classes)
      = map length (data x)" by simp
  from get_grads_clean [OF g Cons.prems(2) sk]
  have gd: "g_grads d = sum_deltas_gradient p (data x) k classes"
    and dx: "data x1 = data x" and cl: "clean x1" by simp_all
  from Cons.prems(3) dx have
    "\<forall>k\<in>set ks. map length (sum_deltas_gradient p (data x1) k classes) = map length (data x1)"
    by simp
  from Cons.IH [OF 2 cl this] gd dx 3 show ?case by simp
qed

lemma for_range_Continue_fresh:
  "for_range i (body self classes x0 y) s = Inr (Continue s') \<Longrightarrow> grad (cur_x s) = None
     \<Longrightarrow> grad (cur_x s') = None"
proof (induction i arbitrary: s)
  case 0
  then show ?case by simp
next
  case (Suc i)
  from Suc.prems(1) obtain s1 where b: "body self classes x0 y s = Inr (Continue s1)"
    and r: "for_range i (body self classes x0 y) s1 = Inr (Continue s')"
    by (auto split: sum.splits ctl.splits)
  from b have "grad (cur_x s1) = None" by (rule body_ContinueE) simp
  with r show ?case by (rule Suc.IH)
qed

lemma loop_prefix_fresh:
  assumes "loop_prefix self rnd x y i = Inr (Continue s)"
  shows "clean (cur_x s)"
proof -
  from assms obtain self' where
    "for_range i (body self' (map argsort_desc (forward (predict self) x)) x y)
           (init_state x) = Inr (Continue s)"
    by (rule loop_prefix_InrE)
  then have "grad (cur_x s) = None"
    by (rule for_range_Continue_fresh) (simp add: init_state_def)
  then show ?thesis by (simp add: clean_def)
qed

subsection \<open>The working point tracks the input\<close>


section \<open>The claims\<close>

text \<open>
  C10. A call of \<open>get_grads\<close> on a tensor whose gradient buffer is clean (absent, or
  zero) returns as \<open>grads\<close> exactly the gradient of the summed \<open>delta_logit\<close> with respect
  to the working point, provided that gradient has the shape of the working point, and it
  leaves the buffer zeroed, hence clean for the next challenger class; the values of the
  working point are untouched.
\<close>

theorem get_grads_extracts_gradient:
  assumes ok: "get_grads p x k classes = Inr (d, x')"
    and buf: "clean x"
    and shape: "map length (sum_deltas_gradient p (data x) k classes) = map length (data x)"
  shows "g_grads d = sum_deltas_gradient p (data x) k classes
         \<and> grad x' = Some (zeros_like (data x')) \<and> data x' = data x \<and> clean x'"
proof -
  have g: "g_grads d = sum_deltas_gradient p (data x) k classes"
    using get_grads_Inr(3) [OF ok] accumulate_clean [OF buf shape] by simp
  have d: "data x' = data x" by (rule get_grads_Inr(1) [OF ok])
  have "grad x' = Some (zeros_like (data x'))"
    using get_grads_Inr(4) [OF ok] g d zeros_like_shape [OF shape] by simp
  with g d show ?thesis by (simp add: clean_def)
qed

theorem get_grads_extracts_gradient_witness:
  "get_grads lin2 \<lparr>data = [[8 / 10]], grad = Some [[0]]\<rparr> 1 [[0, 1]]
     = Inr (\<lparr>g_sum_deltas = - (3 / 5), g_deltas = [- (3 / 5)], g_logits = [[4 / 5, 1 / 5]],
             g_grads = [[- 2]]\<rparr>,
            \<lparr>data = [[8 / 10]], grad = Some [[0]]\<rparr>)
   \<and> clean \<lparr>data = [[8 / 10]], grad = Some [[0]]\<rparr>
   \<and> map length (sum_deltas_gradient lin2 [[8 / 10]] 1 [[0, 1]]) = map length [[8 / 10 :: real]]
   \<and> g_grads \<lparr>g_sum_deltas = - (3 / 5), g_deltas = [- (3 / 5)], g_logits = [[4 / 5, 1 / 5]],
             g_grads = [[- 2]]\<rparr> = sum_deltas_gradient lin2 [[8 / 10]] 1 [[0, 1]]"
proof -
  have a: "get_grads lin2 \<lparr>data = [[8 / 10]], grad = Some [[0]]\<rparr> 1 [[0, 1]]
     = Inr (\<lparr>g_sum_deltas = - (3 / 5), g_deltas = [- (3 / 5)], g_logits = [[4 / 5, 1 / 5]],
             g_grads = [[- 2]]\<rparr>,
            \<lparr>data = [[8 / 10]], grad = Some [[0]]\<rparr>)"
    by (simp add: model_defs)
  have b: "clean \<lparr>data = [[8 / 10]], grad = Some [[0]]\<rparr>"
    by (simp add: model_defs)
  have c: "map length (sum_deltas_gradient lin2 (data \<lparr>data = [[8 / 10]], grad = Some [[0]]\<rparr>) 1 [[0, 1]])
     = map length (data \<lparr>data = [[8 / 10]], grad = Some [[0]]\<rparr>)"
    by (simp add: model_defs)
  from get_grads_extracts_gradient [OF a b c] a b c show ?thesis by simp
qed




text \<open>
  C6. The cumulative perturbation starts as zeros, and after any number \<open>i\<close> of
  iterations of the loop of \<open>perturb\<close> every element of \<open>p_total\<close> has absolute value at
  most \<open>|eps|\<close>; for a budget \<open>eps \<ge> 0\<close> every element lies within \<open>[-eps, eps]\<close>.
\<close>

theorem p_total_within_budget:
  assumes "loop_prefix self rnd x y i = Inr c"
  shows "cur_p_total (init_state x) = zeros_like x
         \<and> bounded \<bar>eps self\<bar> (cur_p_total (ctl_state c))
         \<and> (0 \<le> eps self \<longrightarrow> in_range (- eps self) (eps self) (cur_p_total (ctl_state c)))"
proof -
  from assms obtain self' where
    su: "class_setup self rnd x (forward (predict self) x)
       (map argsort_desc (forward (predict self) x)) = Inr self'"
    and run: "for_range i (body self' (map argsort_desc (forward (predict self) x)) x y)
           (init_state x) = Inr c"
    by (rule loop_prefix_InrE)
  from class_setup_eps [OF su] have e: "eps self' = eps self" by simp
  let ?I = "\<lambda>s. bounded \<bar>eps self'\<bar> (cur_p_total s)
                \<and> (0 \<le> eps self' \<longrightarrow> in_range (- eps self') (eps self') (cur_p_total s))"
  have "?I (init_state x)"
    by (simp add: init_state_def bounded_zeros_like in_range_zeros_like)
  then have "?I (ctl_state c)" using run
    by (rule for_range_invariant [where I = ?I, rotated]) (rule budget_inv_body)
  with e show ?thesis by (simp add: init_state_def)
qed

theorem p_total_within_budget_witness:
  "loop_prefix (default_attack lin2 5) (draws 1) [[8 / 10]] [0] 2
     = Inr (Continue \<lparr>cur_x = \<lparr>data = [[349 / 500]], grad = None\<rparr>,
                      cur_p_total = [[- (1 / 10)]], evals = [1, 1]\<rparr>)
   \<and> 0 \<le> eps (default_attack lin2 5)
   \<and> bounded \<bar>eps (default_attack lin2 5)\<bar> [[- (1 / 10)]]
   \<and> in_range (- eps (default_attack lin2 5)) (eps (default_attack lin2 5)) [[- (1 / 10)]]"
proof -
  have a: "loop_prefix (default_attack lin2 5) (draws 1) [[8 / 10]] [0] 2
     = Inr (Continue \<lparr>cur_x = \<lparr>data = [[349 / 500]], grad = None\<rparr>,
                      cur_p_total = [[- (1 / 10)]], evals = [1, 1]\<rparr>)"
    by (simp add: model_defs eval_nat_numeral)
  have b: "0 \<le> eps (default_attack lin2 5)"
    by (simp add: default_attack_def)
  from p_total_within_budget [OF a] a b show ?thesis by simp
qed



text \<open>
  C8. The loop of \<open>perturb\<close> begins at most \<open>nb_iter\<close> iterations; and if, at the top
  of an iteration, the evaluation of \<open>k = 1\<close> finds every sample adversarial, the loop ends
  there, whatever the number of iterations left: the only evaluation the iteration adds to
  the log is that of \<open>k = 1\<close>.
\<close>

theorem loop_bounded_and_early_exit:
  "(loop_prefix self rnd x y (nat (nb_iter self)) = Inr c
      \<longrightarrow> iterations (ctl_state c) \<le> nat (nb_iter self))
   \<and> (loop_prefix self rnd x y i = Inr (Continue s)
        \<and> get_grads (predict self) (cur_x s) 1 (map argsort_desc (forward (predict self) x))
            = Inr (d1, x1)
        \<and> list_all (\<lambda>b. b) (is_adv (g_logits d1) y)
      \<longrightarrow> loop_prefix self rnd x y (i + Suc n)
            = Inr (Break (s\<lparr>cur_x := x1, evals := evals s @ [1]\<rparr>)))"
proof (intro conjI impI)
  assume "loop_prefix self rnd x y (nat (nb_iter self)) = Inr c"
  then obtain self' where
    "for_range (nat (nb_iter self)) (body self' (map argsort_desc (forward (predict self) x)) x y)
           (init_state x) = Inr c"
    by (rule loop_prefix_InrE)
  from iterations_for_range [OF this] show "iterations (ctl_state c) \<le> nat (nb_iter self)"
    by (simp add: iterations_def init_state_def)
next
  let ?cl = "map argsort_desc (forward (predict self) x)"
  assume a: "loop_prefix self rnd x y i = Inr (Continue s)
        \<and> get_grads (predict self) (cur_x s) 1 ?cl = Inr (d1, x1)
        \<and> list_all (\<lambda>b. b) (is_adv (g_logits d1) y)"
  then obtain self' where su: "class_setup self rnd x (forward (predict self) x) ?cl = Inr self'"
    and run: "for_range i (body self' ?cl x y) (init_state x) = Inr (Continue s)"
    by (auto elim: loop_prefix_InrE)
  from class_setup_eps [OF su] have p: "predict self' = predict self" by simp
  with a have "body self' ?cl x y s = Inr (Break (s\<lparr>cur_x := x1, evals := evals s @ [1]\<rparr>))"
    by (simp add: body_all_adv)
  then have "for_range (Suc n) (body self' ?cl x y) s
            = Inr (Break (s\<lparr>cur_x := x1, evals := evals s @ [1]\<rparr>))"
    by simp
  with run have "for_range (i + Suc n) (body self' ?cl x y) (init_state x)
            = Inr (Break (s\<lparr>cur_x := x1, evals := evals s @ [1]\<rparr>))"
    by (simp only: for_range_add sum.case ctl.case)
  with su show "loop_prefix self rnd x y (i + Suc n)
            = Inr (Break (s\<lparr>cur_x := x1, evals := evals s @ [1]\<rparr>))"
    by (simp add: loop_prefix_def Let_def)
qed

theorem loop_bounded_and_early_exit_witness:
  "loop_prefix ((default_attack lin2 5)\<lparr>eps := 1 / 20\<rparr>) (draws 1) [[55 / 100]] [0]
       (nat (nb_iter ((default_attack lin2 5)\<lparr>eps := 1 / 20\<rparr>)))
     = Inr (Break \<lparr>cur_x = \<lparr>data = [[499 / 1000]], grad = Some [[0]]\<rparr>,
                   cur_p_total = [[- (1 / 20)]], evals = [1, 1]\<rparr>)
   \<and> iterations \<lparr>cur_x = \<lparr>data = [[499 / 1000]], grad = Some [[0]]\<rparr>,
                   cur_p_total = [[- (1 / 20)]], evals = [1, 1]\<rparr>
        \<le> nat (nb_iter ((default_attack lin2 5)\<lparr>eps := 1 / 20\<rparr>))
   \<and> loop_prefix ((default_attack lin2 5)\<lparr>eps := 1 / 20\<rparr>) (draws 1) [[55 / 100]] [0] 1
     = Inr (Continue \<lparr>cur_x = \<lparr>data = [[499 / 1000]], grad = None\<rparr>,
                      cur_p_total = [[- (1 / 20)]], evals = [1]\<rparr>)
   \<and> get_grads lin2 \<lparr>data = [[499 / 1000]], grad = None\<rparr> 1 [[0, 1]]
     = Inr (\<lparr>g_sum_deltas = 1 / 500, g_deltas = [1 / 500],
             g_logits = [[499 / 1000, 501 / 1000]], g_grads = [[- 2]]\<rparr>,
            \<lparr>data = [[499 / 1000]], grad = Some [[0]]\<rparr>)
   \<and> list_all (\<lambda>b. b) (is_adv [[499 / 1000, 501 / 1000]] [0])
   \<and> loop_prefix ((default_attack lin2 5)\<lparr>eps := 1 / 20\<rparr>) (draws 1) [[55 / 100]] [0]
       (1 + Suc 3)
     = Inr (Break \<lparr>cur_x = \<lparr>data = [[499 / 1000]], grad = Some [[0]]\<rparr>,
                   cur_p_total = [[- (1 / 20)]], evals = [1, 1]\<rparr>)"
proof -
  let ?A = "(default_attack lin2 5)\<lparr>eps := 1 / 20\<rparr>"
  let ?s = "\<lparr>cur_x = \<lparr>data = [[499 / 1000]], grad = None\<rparr>,
            cur_p_total = [[- (1 / 20)]], evals = [1]\<rparr>"
  let ?d = "\<lparr>g_sum_deltas = 1 / 500, g_deltas = [1 / 500],
             g_logits = [[499 / 1000, 501 / 1000]], g_grads = [[- 2]]\<rparr>"
  let ?x1 = "\<lparr>data = [[499 / 1000]], grad = Some [[0]]\<rparr>"
  have a: "loop_prefix ?A (draws 1) [[55 / 100]] [0] (nat (nb_iter ?A))
     = Inr (Break \<lparr>cur_x = ?x1, cur_p_total = [[- (1 / 20)]], evals = [1, 1]\<rparr>)"
    by (simp add: model_defs eval_nat_numeral)
  have b: "loop_prefix ?A (draws 1) [[55 / 100]] [0] 1 = Inr (Continue ?s)"
    by (simp add: model_defs)
  have c: "get_grads (predict ?A) (cur_x ?s) 1
             (map argsort_desc (forward (predict ?A) [[55 / 100]])) = Inr (?d, ?x1)"
    by (simp add: model_defs)
  have d: "list_all (\<lambda>b. b) (is_adv (g_logits ?d) [0])"
    by (simp add: model_defs)
  have e: "get_grads lin2 \<lparr>data = [[499 / 1000]], grad = None\<rparr> 1 [[0, 1]] = Inr (?d, ?x1)"
    by (simp add: model_defs)
  from loop_bounded_and_early_exit [of ?A "draws 1" "[[55 / 100]]" "[0]"
      "Break \<lparr>cur_x = ?x1, cur_p_total = [[- (1 / 20)]], evals = [1, 1]\<rparr>" 1 ?s ?d ?x1 3]
    a b c d e
  show ?thesis by simp
qed

text \<open>
  C9 (as amended). \<open>perturb\<close> validates neither \<open>nb_iter\<close> nor \<open>num_classes\<close>. With
  \<open>nb_iter \<le> 0\<close> it returns the input unchanged and raises nothing (the class setup
  raising nothing). With \<open>num_classes < 2\<close> it raises a RuntimeError before the loop in
  random-class mode; otherwise the error is the AssertionError of the shape check inside the
  first iteration, after the evaluation of \<open>k = 1\<close>, and only when some sample is not yet
  adversarial there.
\<close>

theorem malformed_configuration:
  "(\<not> setup_raises self rnd x \<and> nb_iter self \<le> 0 \<longrightarrow> fst (perturb self rnd x y) = Inr x)
   \<and> (random_class self \<and> num_classes self = Some m \<and> m < 2
        \<longrightarrow> fst (perturb self rnd x y) = Inl RuntimeError)
   \<and> (\<not> random_class self \<and> num_classes self = Some m \<and> m < 2 \<and> 0 < nb_iter self
        \<and> list_all (\<lambda>row. 2 \<le> length row) (forward (predict self) x)
        \<and> \<not> list_all (\<lambda>b. b) (is_adv (forward (predict self) x) y)
        \<longrightarrow> loop_prefix self rnd x y 0 = Inr (Continue (init_state x))
            \<and> loop_prefix self rnd x y 1 = Inl AssertionError
            \<and> fst (perturb self rnd x y) = Inl AssertionError)"
proof (intro conjI impI)
  assume "\<not> setup_raises self rnd x \<and> nb_iter self \<le> 0"
  then show "fst (perturb self rnd x y) = Inr x" by (simp add: perturb_no_iteration)
next
  assume "random_class self \<and> num_classes self = Some m \<and> m < 2"
  then show "fst (perturb self rnd x y) = Inl RuntimeError"
    by (simp add: perturb_def class_setup_def Let_def)
next
  let ?L = "forward (predict self) x"
  let ?cl = "map argsort_desc ?L"
  let ?self' = "self\<lparr>num_classes := Some (min m (int (ncols ?L)))\<rparr>"
  assume a: "\<not> random_class self \<and> num_classes self = Some m \<and> m < 2 \<and> 0 < nb_iter self
        \<and> list_all (\<lambda>row. 2 \<le> length row) ?L
        \<and> \<not> list_all (\<lambda>b. b) (is_adv ?L y)"
  then have su: "class_setup self rnd x ?L ?cl = Inr ?self'"
    by (simp add: class_setup_def)
  let ?x = "\<lparr>data = x, grad = None\<rparr>"
  from a have c1: "list_all (\<lambda>row. 1 < length row) (forward (predict self) (data ?x))"
    and c0: "list_all (\<lambda>row. 0 < length row) (forward (predict self) (data ?x))"
    by (auto simp: list_all_iff)
  from get_grads_succeeds [OF c1 c0] obtain d1 x1 where
    g: "get_grads (predict self) ?x 1 ?cl = Inr (d1, x1)" by auto
  from get_grads_Inr(2) [OF g] have lg: "g_logits d1 = ?L" by simp
  from g have g': "get_grads (predict ?self') (cur_x (init_state x)) 1 ?cl = Inr (d1, x1)"
    by (simp add: init_state_def)
  from a lg have nadv: "\<not> list_all (\<lambda>b. b) (is_adv (g_logits d1) y)" by simp
  from a have "is_adv ?L y \<noteq> []" by auto
  then have ne: "?cl \<noteq> []" by (auto simp: is_adv_def)
  have nc: "num_classes ?self' = Some (min m (int (ncols ?L)))" by simp
  from a have lt: "min m (int (ncols ?L)) < 2" by (simp add: min_def)
  have b: "body ?self' ?cl x y (init_state x) = Inl AssertionError"
    by (rule body_too_few_classes [OF g' nadv nc lt ne])
  from a obtain k where k: "nat (nb_iter self) = Suc k" by (cases "nat (nb_iter self)") auto
  from su show "loop_prefix self rnd x y 0 = Inr (Continue (init_state x))"
    by (simp add: loop_prefix_def Let_def)
  from su b show "loop_prefix self rnd x y 1 = Inl AssertionError"
    by (simp add: loop_prefix_def Let_def)
  from su b k show "fst (perturb self rnd x y) = Inl AssertionError"
    by (simp add: perturb_def Let_def)
qed

theorem malformed_configuration_witness:
  "\<not> setup_raises ((default_attack lin2 0)\<lparr>num_classes := Some 1\<rparr>) (draws 1) [[8 / 10]]
   \<and> nb_iter ((default_attack lin2 0)\<lparr>num_classes := Some 1\<rparr>) \<le> 0
   \<and> fst (perturb ((default_attack lin2 0)\<lparr>num_classes := Some 1\<rparr>) (draws 1) [[8 / 10]] [0])
       = Inr [[8 / 10]]
   \<and> random_class ((default_attack lin2 5)\<lparr>random_class := True, num_classes := Some 1\<rparr>)
   \<and> num_classes ((default_attack lin2 5)\<lparr>random_class := True, num_classes := Some 1\<rparr>)
       = Some 1
   \<and> fst (perturb ((default_attack lin2 5)\<lparr>random_class := True, num_classes := Some 1\<rparr>)
            (draws 1) [[8 / 10]] [0]) = Inl RuntimeError
   \<and> \<not> random_class ((default_attack lin2 5)\<lparr>num_classes := Some 1\<rparr>)
   \<and> num_classes ((default_attack lin2 5)\<lparr>num_classes := Some 1\<rparr>) = Some 1
   \<and> 0 < nb_iter ((default_attack lin2 5)\<lparr>num_classes := Some 1\<rparr>)
   \<and> list_all (\<lambda>row. 2 \<le> length row)
        (forward (predict ((default_attack lin2 5)\<lparr>num_classes := Some 1\<rparr>)) [[8 / 10]])
   \<and> \<not> list_all (\<lambda>b. b)
        (is_adv (forward (predict ((default_attack lin2 5)\<lparr>num_classes := Some 1\<rparr>))
           [[8 / 10]]) [0])
   \<and> loop_prefix ((default_attack lin2 5)\<lparr>num_classes := Some 1\<rparr>) (draws 1) [[8 / 10]] [0] 0
       = Inr (Continue (init_state [[8 / 10]]))
   \<and> loop_prefix ((default_attack lin2 5)\<lparr>num_classes := Some 1\<rparr>) (draws 1) [[8 / 10]] [0] 1
       = Inl AssertionError
   \<and> fst (perturb ((default_attack lin2 5)\<lparr>num_classes := Some 1\<rparr>) (draws 1) [[8 / 10]] [0])
       = Inl AssertionError"
proof -
  let ?A0 = "(default_attack lin2 0)\<lparr>num_classes := Some 1\<rparr>"
  let ?A1 = "(default_attack lin2 5)\<lparr>random_class := True, num_classes := Some 1\<rparr>"
  let ?A2 = "(default_attack lin2 5)\<lparr>num_classes := Some 1\<rparr>"
  have a: "\<not> setup_raises ?A0 (draws 1) [[8 / 10]] \<and> nb_iter ?A0 \<le> 0"
    by (simp add: model_defs)
  have b: "random_class ?A1 \<and> num_classes ?A1 = Some 1 \<and> (1::int) < 2"
    by (simp add: model_defs)
  have c: "\<not> random_class ?A2 \<and> num_classes ?A2 = Some 1 \<and> (1::int) < 2 \<and> 0 < nb_iter ?A2
        \<and> list_all (\<lambda>row. 2 \<le> length row) (forward (predict ?A2) [[8 / 10]])
        \<and> \<not> list_all (\<lambda>b. b) (is_adv (forward (predict ?A2) [[8 / 10]]) [0])"
    by (simp add: model_defs)
  from malformed_configuration [of ?A0 "draws 1" "[[8 / 10]]" "[0]" 1] a
  have 1: "fst (perturb ?A0 (draws 1) [[8 / 10]] [0]) = Inr [[8 / 10]]" by blast
  from malformed_configuration [of ?A1 "draws 1" "[[8 / 10]]" "[0]" 1] b
  have 2: "fst (perturb ?A1 (draws 1) [[8 / 10]] [0]) = Inl RuntimeError" by blast
  from malformed_configuration [of ?A2 "draws 1" "[[8 / 10]]" "[0]" 1] c
  have 3: "loop_prefix ?A2 (draws 1) [[8 / 10]] [0] 0 = Inr (Continue (init_state [[8 / 10]]))
      \<and> loop_prefix ?A2 (draws 1) [[8 / 10]] [0] 1 = Inl AssertionError
      \<and> fst (perturb ?A2 (draws 1) [[8 / 10]] [0]) = Inl AssertionError" by blast
  from a b c 1 2 3 show ?thesis by blast
qed

text \<open>
  C9 as stated fails: with \<open>nb_iter = 0\<close> and \<open>num_classes = 1\<close> the input is returned
  and nothing is raised; and with \<open>nb_iter = 5\<close>, \<open>num_classes = 1\<close> the same happens for a
  sample that is adversarial at the first check.
\<close>

theorem malformed_configuration_counterexample:
  "fst (perturb ((default_attack lin2 0)\<lparr>num_classes := Some 1\<rparr>) (draws 1) [[8 / 10]] [0])
     = Inr [[8 / 10]]
   \<and> fst (perturb ((default_attack lin2 5)\<lparr>num_classes := Some 1\<rparr>) (draws 1) [[3 / 10]] [0])
     = Inr [[3 / 10]]"
  by (simp add: model_defs eval_nat_numeral)

text \<open>
  C3 (as amended). A call of \<open>perturb\<close> leaves \<open>predict\<close>, \<open>nb_iter\<close>, \<open>eps\<close>,
  \<open>random_class\<close>, \<open>overshoot\<close>, \<open>clip_min\<close> and \<open>clip_max\<close> as they were, and, once
  the class setup has raised nothing, it has overwritten \<open>num_classes\<close> with the effective
  number of classes (2 in random-class mode, else the configured number capped by the
  number of scores, or that number when none was configured). A second call on the same
  object with the same inputs returns the same result and leaves the object as the first
  call left it, when \<open>random_class\<close> is false or the class setup raises in neither call.
\<close>

theorem perturb_frame_and_repeat:
  assumes p1: "perturb self rnd1 x y = (r1, s1)" and p2: "perturb s1 rnd2 x y = (r2, s2)"
  shows "predict s1 = predict self \<and> nb_iter s1 = nb_iter self \<and> eps s1 = eps self
         \<and> random_class s1 = random_class self \<and> overshoot s1 = overshoot self
         \<and> clip_min s1 = clip_min self \<and> clip_max s1 = clip_max self
         \<and> (\<not> setup_raises self rnd1 x \<longrightarrow>
              num_classes s1 =
                (if random_class self then Some 2
                 else Some (case num_classes self of
                              None \<Rightarrow> int (ncols (forward (predict self) x))
                            | Some m \<Rightarrow> min m (int (ncols (forward (predict self) x))))))
         \<and> (\<not> random_class self \<or> (\<not> setup_raises self rnd1 x \<and> \<not> setup_raises s1 rnd2 x)
              \<longrightarrow> r2 = r1 \<and> s2 = s1)"
proof -
  note fr = perturb_frame [OF p1]
  have nc: "num_classes s1 =
                (if random_class self then Some 2
                 else Some (case num_classes self of
                              None \<Rightarrow> int (ncols (forward (predict self) x))
                            | Some m \<Rightarrow> min m (int (ncols (forward (predict self) x)))))"
    if ok: "\<not> setup_raises self rnd1 x"
  proof -
    from ok obtain t1 where su1: "class_setup self rnd1 x (forward (predict self) x)
        (map argsort_desc (forward (predict self) x)) = Inr t1"
      by (auto simp: setup_raises_iff)
    from perturb_setup_Inr [OF su1, of y] p1 have "s1 = t1" by (auto split: sum.splits)
    with class_setup_num_classes [OF su1] show ?thesis by simp
  qed
  have rep: "r2 = r1 \<and> s2 = s1"
    if h: "\<not> random_class self \<or> (\<not> setup_raises self rnd1 x \<and> \<not> setup_raises s1 rnd2 x)"
  proof -
    from h fr have "\<not> setup_raises self rnd1 x \<and> \<not> setup_raises s1 rnd2 x"
      by (auto simp: setup_nonrandom)
    with p1 p2 show ?thesis by (simp add: perturb_repeat)
  qed
  from fr nc rep show ?thesis by blast
qed

theorem perturb_frame_and_repeat_witness:
  "perturb (default_attack lin2 1) (draws 1) [[8 / 10]] [0]
     = (Inr [[349 / 500]], (default_attack lin2 1)\<lparr>num_classes := Some 2\<rparr>)
   \<and> perturb ((default_attack lin2 1)\<lparr>num_classes := Some 2\<rparr>) (draws 1) [[8 / 10]] [0]
     = (Inr [[349 / 500]], (default_attack lin2 1)\<lparr>num_classes := Some 2\<rparr>)
   \<and> \<not> random_class (default_attack lin2 1)
   \<and> \<not> setup_raises (default_attack lin2 1) (draws 1) [[8 / 10]]
   \<and> nb_iter ((default_attack lin2 1)\<lparr>num_classes := Some 2\<rparr>) = nb_iter (default_attack lin2 1)
   \<and> num_classes ((default_attack lin2 1)\<lparr>num_classes := Some 2\<rparr>) = Some 2"
proof -
  let ?A = "default_attack lin2 1"
  have a: "perturb ?A (draws 1) [[8 / 10]] [0] = (Inr [[349 / 500]], ?A\<lparr>num_classes := Some 2\<rparr>)"
    by (simp add: model_defs)
  have b: "perturb (?A\<lparr>num_classes := Some 2\<rparr>) (draws 1) [[8 / 10]] [0]
     = (Inr [[349 / 500]], ?A\<lparr>num_classes := Some 2\<rparr>)"
    by (simp add: model_defs)
  have c: "\<not> random_class ?A \<and> \<not> setup_raises ?A (draws 1) [[8 / 10]]"
    by (simp add: model_defs)
  from perturb_frame_and_repeat [OF a b] a b c show ?thesis by simp
qed

text \<open>
  C3 as stated fails: the default \<open>num_classes = None\<close> is \<open>2\<close> after a call on a
  two-class classifier; and in random-class mode with \<open>num_classes = 5\<close> on two classes,
  a call whose draw is 3 raises and leaves the object as it was, while a call with the draw
  1 on the same inputs returns a batch.
\<close>

theorem perturb_frame_counterexample:
  "num_classes (default_attack lin2 1) = None
   \<and> num_classes (snd (perturb (default_attack lin2 1) (draws 1) [[8 / 10]] [0])) = Some 2
   \<and> perturb ((default_attack lin2 1)\<lparr>random_class := True, num_classes := Some 5\<rparr>) (draws 3)
        [[8 / 10]] [0]
     = (Inl RuntimeError, (default_attack lin2 1)\<lparr>random_class := True, num_classes := Some 5\<rparr>)
   \<and> fst (perturb ((default_attack lin2 1)\<lparr>random_class := True, num_classes := Some 5\<rparr>)
        (draws 1) [[8 / 10]] [0]) = Inr [[349 / 500]]"
  by (simp add: model_defs)

text \<open>
  C2. The code at the failing input: random-class mode with \<open>num_classes = 3\<close> on three
  classes. \<open>num_classes\<close> becomes 2, but the draw has no effect: with the draw 2 and with
  the draw 1 the result is the same, the loop evaluating \<open>k = 1\<close> on the full descending
  ordering \<open>[0, 1, 2]\<close>, that is against the runner-up, class 1 (score gap \<open>-3/5\<close>, a step
  downwards), where the pair of the top-1 class and the class drawn, \<open>[0, 2]\<close>, has the
  score gap \<open>-7/10\<close>.
\<close>

theorem random_class_draw_discarded:
  "perturb ((default_attack lin3 1)\<lparr>random_class := True, num_classes := Some 3\<rparr>) (draws 2)
      [[8 / 10]] [0]
     = (Inr [[349 / 500]],
        (default_attack lin3 1)\<lparr>random_class := True, num_classes := Some 2\<rparr>)
   \<and> perturb ((default_attack lin3 1)\<lparr>random_class := True, num_classes := Some 3\<rparr>) (draws 1)
      [[8 / 10]] [0]
     = (Inr [[349 / 500]],
        (default_attack lin3 1)\<lparr>random_class := True, num_classes := Some 2\<rparr>)
   \<and> map argsort_desc (forward lin3 [[8 / 10]]) = [[0, 1, 2]]
   \<and> loop_prefix ((default_attack lin3 1)\<lparr>random_class := True, num_classes := Some 3\<rparr>)
        (draws 2) [[8 / 10]] [0] 1
     = Inr (Continue \<lparr>cur_x = \<lparr>data = [[349 / 500]], grad = None\<rparr>,
                      cur_p_total = [[- (1 / 10)]], evals = [1]\<rparr>)
   \<and> get_deltas_logits lin3 [[8 / 10]] 1 [[0, 1, 2]]
     = Inr \<lparr>d_sum_deltas = - (3 / 5), d_deltas = [- (3 / 5)],
            d_logits = [[4 / 5, 1 / 5, 1 / 10]]\<rparr>
   \<and> get_deltas_logits lin3 [[8 / 10]] 1 [[0, 2]]
     = Inr \<lparr>d_sum_deltas = - (7 / 10), d_deltas = [- (7 / 10)],
            d_logits = [[4 / 5, 1 / 5, 1 / 10]]\<rparr>"
  by (simp add: model_defs)

text \<open>
  C4. For stacked \<open>delta_logit\<close> values of shape \<open>N \<times> (C - 1)\<close> and stacked gradients of
  shape \<open>N \<times> (C - 1) \<times> D\<close> (with \<open>C \<ge> 2\<close>), lines 144-154 raise nothing; the distance
  of sample \<open>n\<close> and candidate \<open>j\<close> is \<open>|delta_logit| / (\<Sum>|grad| + 1e-8)\<close>, the sum
  ranging over the features of that candidate's gradient; the challenger selected for a
  sample is the index of the first minimum of its distances; and the gathered distance,
  \<open>delta_logit\<close> and gradient are those at that index.
\<close>

theorem nearest_boundary_selection:
  assumes sd: "has_shape2 deltas N (nc - 1)" and sg: "has_shape2 grads N (nc - 1)"
    and sx: "list_all2 (\<lambda>r x0n. list_all (\<lambda>g. length g = length x0n) r) grads x0"
    and nc: "2 \<le> nc"
  shows "\<exists>distances' deltas' grads'.
           best_directions N nc x0 deltas grads = Inr (distances', deltas', grads')
           \<and> length distances' = N \<and> length deltas' = N \<and> length grads' = N
           \<and> (\<forall>n<N.
                length (get_distances deltas grads ! n) = nat (nc - 1)
                \<and> (\<forall>j<nat (nc - 1).
                      get_distances deltas grads ! n ! j
                        = \<bar>deltas ! n ! j\<bar> / (sum_list (map abs (grads ! n ! j)) + 1 / 10 ^ 8))
                \<and> argmin (get_distances deltas grads ! n) < nat (nc - 1)
                \<and> (\<forall>j<nat (nc - 1).
                      get_distances deltas grads ! n ! argmin (get_distances deltas grads ! n)
                        \<le> get_distances deltas grads ! n ! j)
                \<and> (\<forall>j<argmin (get_distances deltas grads ! n).
                      get_distances deltas grads ! n ! argmin (get_distances deltas grads ! n)
                        < get_distances deltas grads ! n ! j)
                \<and> distances' ! n
                    = get_distances deltas grads ! n ! argmin (get_distances deltas grads ! n)
                \<and> deltas' ! n = deltas ! n ! argmin (get_distances deltas grads ! n)
                \<and> grads' ! n = grads ! n ! argmin (get_distances deltas grads ! n))"
proof -
  let ?M = "nat (nc - 1)"
  let ?dist = "get_distances deltas grads"
  let ?best = "map argmin ?dist"
  from nc have M: "0 < ?M" by simp
  from sd nc have ld: "length deltas = N" and rd: "\<And>n. n < N \<Longrightarrow> length (deltas ! n) = ?M"
    by (auto simp: has_shape2_nth)
  from sg nc have lg: "length grads = N" and rg: "\<And>n. n < N \<Longrightarrow> length (grads ! n) = ?M"
    by (auto simp: has_shape2_nth)
  have ldist: "length ?dist = N" using ld lg by (simp add: get_distances_def)
  have rdist: "length (?dist ! n) = ?M" if "n < N" for n
    using get_distances_nth(2) [OF ld lg that rd [OF that] rg [OF that]] .
  have vdist: "?dist ! n ! j = \<bar>deltas ! n ! j\<bar> / (sum_list (map abs (grads ! n ! j)) + 1 / 10 ^ 8)"
    if "n < N" "j < ?M" for n j
    using get_distances_nth(3) [OF ld lg that(1) rd [OF that(1)] rg [OF that(1)] that(2)] .
  have shape: "has_shape2 ?dist N (nc - 1)"
    using ldist rdist nc by (auto simp: has_shape2_nth)
  have am: "argmin (?dist ! n) < ?M
            \<and> (\<forall>j<?M. ?dist ! n ! argmin (?dist ! n) \<le> ?dist ! n ! j)
            \<and> (\<forall>j<argmin (?dist ! n). ?dist ! n ! argmin (?dist ! n) < ?dist ! n ! j)"
    if "n < N" for n
  proof -
    from rdist [OF that] M have "?dist ! n \<noteq> []" by auto
    from argmin_first_min [OF this] rdist [OF that] show ?thesis by simp
  qed
  have lb: "length ?best = N" using ldist by simp
  have bn: "?best ! n = argmin (?dist ! n)" if "n < N" for n
    using that ldist by simp
  have "\<exists>vs. index_rows ?dist ?best = Inr vs \<and> length vs = length ?best
          \<and> (\<forall>n<length ?best. vs ! n = ?dist ! n ! (?best ! n))"
    using ldist am rdist by (intro index_rows_Inr) auto
  then obtain d' where d': "index_rows ?dist ?best = Inr d'" "length d' = N"
    "\<And>n. n < N \<Longrightarrow> d' ! n = ?dist ! n ! argmin (?dist ! n)"
    using lb bn by auto
  have "\<exists>vs. index_rows deltas ?best = Inr vs \<and> length vs = length ?best
          \<and> (\<forall>n<length ?best. vs ! n = deltas ! n ! (?best ! n))"
    using ldist ld am rd by (intro index_rows_Inr) auto
  then obtain e' where e': "index_rows deltas ?best = Inr e'" "length e' = N"
    "\<And>n. n < N \<Longrightarrow> e' ! n = deltas ! n ! argmin (?dist ! n)"
    using lb bn by auto
  have "\<exists>vs. index_rows grads ?best = Inr vs \<and> length vs = length ?best
          \<and> (\<forall>n<length ?best. vs ! n = grads ! n ! (?best ! n))"
    using ldist lg am rg by (intro index_rows_Inr) auto
  then obtain g' where g': "index_rows grads ?best = Inr g'" "length g' = N"
    "\<And>n. n < N \<Longrightarrow> g' ! n = grads ! n ! argmin (?dist ! n)"
    using lb bn by auto
  from sx lg have lx: "length x0 = N" by (auto dest: list_all2_lengthD)
  have "length (g' ! n) = length (x0 ! n)" if "n < N" for n
  proof -
    from sx that lg have "list_all (\<lambda>g. length g = length (x0 ! n)) (grads ! n)"
      by (simp add: list_all2_conv_all_nth)
    with am [OF that] rg [OF that] g'(3) [OF that] show ?thesis
      by (simp add: list_all_length)
  qed
  with g'(2) lx have sh: "map length g' = map length x0"
    by (auto intro: nth_equalityI)
  have "best_directions N nc x0 deltas grads = Inr (d', e', g')"
    using shape d'(1,2) e'(1,2) g'(1) sh by (simp add: best_directions_def Let_def)
  with d'(2,3) e'(2,3) g'(2,3) rdist vdist am show ?thesis by blast
qed

theorem nearest_boundary_selection_witness:
  "has_shape2 [[1, - 1 :: real]] 1 (3 - 1)
   \<and> has_shape2 [[[1, 1], [- 2, 0 :: real]]] 1 (3 - 1)
   \<and> list_all2 (\<lambda>r x0n. list_all (\<lambda>g. length g = length x0n) r)
        [[[1, 1], [- 2, 0 :: real]]] [[0, 0 :: real]]
   \<and> (2 :: int) \<le> 3
   \<and> get_distances [[1, - 1]] [[[1, 1], [- 2, 0]]]
       = [[100000000 / 200000001, 100000000 / 200000001]]
   \<and> argmin [100000000 / 200000001, 100000000 / 200000001] = 0
   \<and> best_directions 1 3 [[0, 0]] [[1, - 1]] [[[1, 1], [- 2, 0]]]
       = Inr ([100000000 / 200000001], [1], [[1, 1]])"
proof -
  have a: "has_shape2 [[1, - 1 :: real]] 1 (3 - 1)" by (simp add: has_shape2_def)
  have b: "has_shape2 [[[1, 1], [- 2, 0 :: real]]] 1 (3 - 1)" by (simp add: has_shape2_def)
  have c: "list_all2 (\<lambda>r x0n. list_all (\<lambda>g. length g = length x0n) r)
        [[[1, 1], [- 2, 0 :: real]]] [[0, 0 :: real]]" by simp
  have d: "(2 :: int) \<le> 3" by simp
  have e: "get_distances [[1, - 1]] [[[1, 1], [- 2, 0]]]
       = [[100000000 / 200000001, 100000000 / 200000001]]"
    by (simp add: get_distances_def)
  have f: "argmin [100000000 / 200000001, 100000000 / 200000001] = 0"
    by (simp add: argmin_def)
  from nearest_boundary_selection [OF a b c d] obtain d' e' g' where
    r: "best_directions 1 3 [[0, 0]] [[1, - 1]] [[[1, 1], [- 2, 0]]] = Inr (d', e', g')"
    and l: "length d' = 1" "length e' = 1" "length g' = 1"
    and v: "d' ! 0 = get_distances [[1, - 1]] [[[1, 1], [- 2, 0]]] ! 0
                    ! argmin (get_distances [[1, - 1]] [[[1, 1], [- 2, 0]]] ! 0)"
      "e' ! 0 = [[1, - 1]] ! 0 ! argmin (get_distances [[1, - 1]] [[[1, 1], [- 2, 0]]] ! 0)"
      "g' ! 0 = [[[1, 1], [- 2, 0]]] ! 0
                    ! argmin (get_distances [[1, - 1]] [[[1, 1], [- 2, 0]]] ! 0)"
    by auto
  from l v e f have "d' = [100000000 / 200000001]" "e' = [1]" "g' = [[1, 1]]"
    by (auto simp: length_Suc_conv)
  with r a b c d e f show ?thesis by simp
qed

text \<open>
  C5 (as amended). For a classifier that scores every sample independently of the rest of
  the batch: a sample that is adversarial in the state reached after \<open>i\<close> iterations, and
  whose working point lies within \<open>[clip_min, clip_max]\<close> there, has the same working point
  after any number of further iterations, and, if \<open>i\<close> does not exceed the number of
  iterations of the run, \<open>perturb\<close> returns that working point for the sample.
\<close>

theorem frozen_once_adversarial:
  assumes per: "forward (predict self) = map f"
    and at_i: "loop_prefix self rnd x y i = Inr c0"
    and n: "n < length (data (cur_x (ctl_state c0)))" "n < length y"
    and adv: "int (argmax (f (data (cur_x (ctl_state c0)) ! n))) \<noteq> y ! n"
    and rg: "list_all (\<lambda>v. clip_min self \<le> v \<and> v \<le> clip_max self)
               (data (cur_x (ctl_state c0)) ! n)"
  shows "(loop_prefix self rnd x y (i + j) = Inr c
            \<longrightarrow> n < length (data (cur_x (ctl_state c)))
                \<and> data (cur_x (ctl_state c)) ! n = data (cur_x (ctl_state c0)) ! n)
         \<and> (i \<le> nat (nb_iter self) \<and> fst (perturb self rnd x y) = Inr x_adv
            \<longrightarrow> n < length x_adv \<and> x_adv ! n = data (cur_x (ctl_state c0)) ! n)"
proof -
  let ?cl = "map argsort_desc (forward (predict self) x)"
  from at_i obtain self' where su: "class_setup self rnd x (forward (predict self) x) ?cl = Inr self'"
    and run_i: "for_range i (body self' ?cl x y) (init_state x) = Inr c0"
    by (rule loop_prefix_InrE)
  note fr = class_setup_eps [OF su]
  from per fr have per': "forward (predict self') = map f" by simp
  from rg fr have rg': "list_all (\<lambda>v. clip_min self' \<le> v \<and> v \<le> clip_max self')
               (data (cur_x (ctl_state c0)) ! n)" by simp
  have inv: "shape_inv x (ctl_state c0)"
    by (rule shape_inv_for_range [OF shape_inv_init run_i])
  have later: "n < length (data (cur_x (ctl_state c')))
                \<and> data (cur_x (ctl_state c')) ! n = data (cur_x (ctl_state c0)) ! n"
    if run: "for_range (i + k) (body self' ?cl x y) (init_state x) = Inr c'" for k c'
  proof -
    from for_range_after [OF run_i run]
    show ?thesis
    proof
      assume "for_range k (body self' ?cl x y) (ctl_state c0) = Inr c'"
      then show ?thesis by (rule frozen_for_range [OF per' inv n adv rg'])
    next
      assume "c' = c0 \<and> (\<exists>t. c0 = Break t)"
      with n show ?thesis by simp
    qed
  qed
  have 1: "n < length (data (cur_x (ctl_state c)))
                \<and> data (cur_x (ctl_state c)) ! n = data (cur_x (ctl_state c0)) ! n"
    if "loop_prefix self rnd x y (i + j) = Inr c"
  proof -
    from that su have "for_range (i + j) (body self' ?cl x y) (init_state x) = Inr c"
      by (simp add: loop_prefix_def Let_def)
    then show ?thesis by (rule later)
  qed
  have 2: "n < length x_adv \<and> x_adv ! n = data (cur_x (ctl_state c0)) ! n"
    if le: "i \<le> nat (nb_iter self)" and out: "fst (perturb self rnd x y) = Inr x_adv"
  proof -
    from out su fr obtain c' where
      run: "for_range (nat (nb_iter self)) (body self' ?cl x y) (init_state x) = Inr c'"
      and res: "x_adv = data (cur_x (ctl_state c'))"
      by (auto simp: perturb_def Let_def split: sum.splits)
    from le have "nat (nb_iter self) = i + (nat (nb_iter self) - i)" by simp
    with run have "for_range (i + (nat (nb_iter self) - i)) (body self' ?cl x y) (init_state x)
        = Inr c'" by simp
    from later [OF this] res show ?thesis by simp
  qed
  from 1 2 show ?thesis by blast
qed

theorem frozen_once_adversarial_witness:
  "forward (predict ((default_attack lin2 5)\<lparr>eps := 1 / 20\<rparr>)) = map lin2_scores
   \<and> loop_prefix ((default_attack lin2 5)\<lparr>eps := 1 / 20\<rparr>) (draws 1)
        [[55 / 100], [9 / 10]] [0, 0] 1
     = Inr (Continue \<lparr>cur_x = \<lparr>data = [[499 / 1000], [849 / 1000]], grad = None\<rparr>,
                      cur_p_total = [[- (1 / 20)], [- (1 / 20)]], evals = [1]\<rparr>)
   \<and> int (argmax (lin2_scores [499 / 1000])) \<noteq> 0
   \<and> list_all (\<lambda>v. clip_min ((default_attack lin2 5)\<lparr>eps := 1 / 20\<rparr>) \<le> v
                  \<and> v \<le> clip_max ((default_attack lin2 5)\<lparr>eps := 1 / 20\<rparr>)) [499 / 1000]
   \<and> loop_prefix ((default_attack lin2 5)\<lparr>eps := 1 / 20\<rparr>) (draws 1)
        [[55 / 100], [9 / 10]] [0, 0] (1 + 2)
     = Inr (Continue \<lparr>cur_x = \<lparr>data = [[499 / 1000], [849 / 1000]], grad = None\<rparr>,
                      cur_p_total = [[- (1 / 20)], [- (1 / 20)]], evals = [1, 1, 1]\<rparr>)
   \<and> 1 \<le> nat (nb_iter ((default_attack lin2 5)\<lparr>eps := 1 / 20\<rparr>))
   \<and> fst (perturb ((default_attack lin2 5)\<lparr>eps := 1 / 20\<rparr>) (draws 1)
        [[55 / 100], [9 / 10]] [0, 0]) = Inr [[499 / 1000], [849 / 1000]]
   \<and> [[499 / 1000], [849 / 1000 :: real]] ! 0 = [499 / 1000]"
proof -
  let ?A = "(default_attack lin2 5)\<lparr>eps := 1 / 20\<rparr>"
  let ?s1 = "\<lparr>cur_x = \<lparr>data = [[499 / 1000], [849 / 1000]], grad = None\<rparr>,
             cur_p_total = [[- (1 / 20)], [- (1 / 20)]], evals = [1]\<rparr>"
  let ?s3 = "\<lparr>cur_x = \<lparr>data = [[499 / 1000], [849 / 1000]], grad = None\<rparr>,
             cur_p_total = [[- (1 / 20)], [- (1 / 20)]], evals = [1, 1, 1]\<rparr>"
  have per: "forward (predict ?A) = map lin2_scores"
    by (simp add: default_attack_def lin2_def)
  have at1: "loop_prefix ?A (draws 1) [[55 / 100], [9 / 10]] [0, 0] 1 = Inr (Continue ?s1)"
    by (simp add: model_defs)
  have n1: "0 < length (data (cur_x (ctl_state (Continue ?s1))))" by simp
  have n2: "0 < length [0 :: int, 0]" by simp
  have adv: "int (argmax (lin2_scores (data (cur_x (ctl_state (Continue ?s1))) ! 0)))
               \<noteq> [0, 0] ! 0"
    by (simp add: lin2_scores_def argmax_def)
  have rg: "list_all (\<lambda>v. clip_min ?A \<le> v \<and> v \<le> clip_max ?A)
              (data (cur_x (ctl_state (Continue ?s1))) ! 0)"
    by (simp add: default_attack_def)
  have at3: "loop_prefix ?A (draws 1) [[55 / 100], [9 / 10]] [0, 0] (1 + 2) = Inr (Continue ?s3)"
    by (simp add: model_defs eval_nat_numeral)
  have le: "1 \<le> nat (nb_iter ?A)" by (simp add: default_attack_def)
  have out: "fst (perturb ?A (draws 1) [[55 / 100], [9 / 10]] [0, 0])
               = Inr [[499 / 1000], [849 / 1000]]"
    by (simp add: model_defs eval_nat_numeral)
  from frozen_once_adversarial [OF per at1 n1 n2 adv rg, of 2 "Continue ?s3"
      "[[499 / 1000], [849 / 1000]]"] per at1 adv rg at3 le out
  show ?thesis by simp
qed

text \<open>
  C5 as stated fails for deterministic classifiers. With the default configuration the
  sample \<open>1.5\<close> with label 1 is adversarial at the first check and is nevertheless moved to
  \<open>1\<close> by the clipping of that iteration. And with the batch-coupled classifier
  (\<open>eps = 0.05\<close>, \<open>overshoot = 1\<close>) the sample 0 of the batch \<open>[0.2, 0.2]\<close> with labels
  \<open>[0, 1]\<close> is adversarial at the first check and keeps \<open>0.2\<close> in the first iteration,
  which moves sample 1 and so changes the scores of sample 0; no longer adversarial, it is
  moved to \<open>0.3\<close> by the second iteration.
\<close>

theorem frozen_once_adversarial_counterexample:
  "is_adv (forward lin2 [[3 / 2], [8 / 10]]) [1, 0] = [True, False]
   \<and> fst (perturb (default_attack lin2 1) (draws 1) [[3 / 2], [8 / 10]] [1, 0])
     = Inr [[1], [349 / 500]]
   \<and> is_adv (forward coupled [[2 / 10], [2 / 10]]) [0, 1] = [True, False]
   \<and> loop_prefix ((default_attack coupled 2)\<lparr>eps := 1 / 20, overshoot := 1\<rparr>) (draws 1)
        [[2 / 10], [2 / 10]] [0, 1] 1
     = Inr (Continue \<lparr>cur_x = \<lparr>data = [[1 / 5], [3 / 10]], grad = None\<rparr>,
                      cur_p_total = [[1 / 20], [1 / 20]], evals = [1]\<rparr>)
   \<and> fst (perturb ((default_attack coupled 2)\<lparr>eps := 1 / 20, overshoot := 1\<rparr>) (draws 1)
        [[2 / 10], [2 / 10]] [0, 1])
     = Inr [[3 / 10], [3 / 10]]"
  by (simp add: model_defs eval_nat_numeral)

end
